theory Spec2Isabelle
  imports Main "HOL-Library.AList"
begin

section \<open>Values of the source language\<close>

text \<open>
  The class \<open>OrbitSchemaFromOpenApi\<close> of \<open>src/index.js\<close> reads an OpenAPI document whose
  \<open>definitions\<close> are JSON Schema nodes and writes an Orbit schema. A JavaScript object is
  an association list of its own enumerable properties in the order \<open>Object.keys\<close> lists
  them; \<open>undefined\<close> (an absent property) is \<open>None\<close>. Reading a property of \<open>undefined\<close>
  throws a \<open>TypeError\<close>; \<open>JSON.parse\<close> throws a \<open>SyntaxError\<close>; the errors of the OAuth
  and HTTP collaborators are opaque.

  The input is typed: where the code expects a schema node there is a node or nothing
  (no \<open>null\<close>, number or string in its place), and the filter lists are arrays of
  strings, as the documentation of the constructor has them. The objects of the input
  are plain objects as \<open>JSON.parse\<close> builds them: every property is an own data property
  and the prototype is \<open>Object.prototype\<close>, which has none of the names the code reads.
  The objects of the output are read through their own keys only (\<open>map_of\<close>, the set of
  keys); the place of a key in the list is the order of insertion.
\<close>

datatype js_error = TypeError | SyntaxError | CollaboratorError string

text \<open>
  A JSON Schema node, with the four members the code reads: \<open>.type\<close>, \<open>.enum\<close>,
  \<open>.properties\<close> and \<open>.items\<close>. Each may be absent.
\<close>

datatype schema = Schema
  (s_type: "string option")
  (s_enum: "string list option")
  (s_properties: "(string \<times> schema) list option")
  (s_items: "schema option")

record document =
  definitions :: "(string \<times> schema) list option"

text \<open>\<open>convertToOrbit\<close> takes the response body as text or as a parsed object.\<close>

datatype body = Text string | Parsed document

record whitelist_options =
  wl_resources :: "string list option"

record blacklist_options =
  bl_attributes :: "string list option"
  bl_relationships :: "string list option"

record options =
  base :: string
  whitelist :: "whitelist_options option"
  blacklist :: "blacklist_options option"

text \<open>The output: \<open>{ type: ... }\<close> per attribute, \<open>{ type: ..., model: ... }\<close> per relationship.\<close>

record attribute_model =
  attr_type :: "string option"

record relationship_model =
  rel_type :: string
  model :: "string option"

record resource_model =
  attributes :: "(string \<times> attribute_model) list option"
  relationships :: "(string \<times> relationship_model) list option"

record orbit_schema =
  models :: "(string \<times> resource_model) list"

section \<open>Primitives of the language\<close>

text \<open>Sequencing of computations that may throw: the first exception ends the run.\<close>

definition bindE :: "js_error + 'a \<Rightarrow> ('a \<Rightarrow> js_error + 'b) \<Rightarrow> js_error + 'b" where
  "bindE m f = (case m of Inl e \<Rightarrow> Inl e | Inr x \<Rightarrow> f x)"

text \<open>
  Member access \<open>x.f\<close> and \<open>x[k]\<close>: a \<open>TypeError\<close> when \<open>x\<close> is \<open>undefined\<close>, else the
  member, which may itself be \<open>undefined\<close>.
\<close>

definition access :: "'a option \<Rightarrow> ('a \<Rightarrow> 'b option) \<Rightarrow> js_error + 'b option" where
  "access x f = (case x of None \<Rightarrow> Inl TypeError | Some v \<Rightarrow> Inr (f v))"

text \<open>The own property \<open>k\<close> of an object.\<close>

definition entry :: "string \<Rightarrow> (string \<times> 'a) list \<Rightarrow> 'a option" where
  "entry k obj = map_of obj k"

text \<open>\<open>xs[0]\<close> on an array: \<open>undefined\<close> when the array is empty.\<close>

definition first_element :: "'a list \<Rightarrow> 'a option" where
  "first_element xs = (case xs of [] \<Rightarrow> None | v # _ \<Rightarrow> Some v)"

text \<open>
  The assignment \<open>o[k] = v\<close> of an object \<open>v\<close> to a property of a plain object \<open>o\<close>. A
  new key goes to the end, a key the object holds keeps its place and takes the new value.
  The name \<open>__proto__\<close> is the accessor of \<open>Object.prototype\<close>: the assignment runs its
  setter, which makes \<open>v\<close> the prototype of \<open>o\<close> and creates no own key.
\<close>

definition assign :: "string \<Rightarrow> 'a \<Rightarrow> (string \<times> 'a) list \<Rightarrow> (string \<times> 'a) list" where
  "assign k v obj = (if k = ''__proto__'' then obj else AList.update k v obj)"

text \<open>\<open>Object.keys(x)\<close> throws on \<open>undefined\<close>.\<close>

definition object_keys :: "(string \<times> 'a) list option \<Rightarrow> js_error + string list" where
  "object_keys x = (case x of None \<Rightarrow> Inl TypeError | Some obj \<Rightarrow> Inr (map fst obj))"

text \<open>\<open>Array.prototype.indexOf\<close>: the first index of the element, or \<open>-1\<close>.\<close>

fun indexOf :: "'a list \<Rightarrow> 'a \<Rightarrow> int" where
  "indexOf [] x = - 1"
| "indexOf (y # ys) x =
     (if y = x then 0 else (let i = indexOf ys x in if i < 0 then - 1 else i + 1))"

text \<open>
  \<open>String.prototype.replace\<close> with a string pattern and a replacement text without \<open>$\<close>:
  the first occurrence of the pattern is replaced, the rest of the string is kept.
\<close>

fun replace :: "string \<Rightarrow> string \<Rightarrow> string \<Rightarrow> string" where
  "replace [] pat rep = (if pat = [] then rep else [])"
| "replace (c # cs) pat rep =
     (if take (length pat) (c # cs) = pat then rep @ drop (length pat) (c # cs)
      else c # replace cs pat rep)"

section \<open>serialize\<close>

text \<open>The guard of lines 121-124: the name is on \<open>options.blacklist.attributes\<close>.\<close>

definition attribute_blacklisted :: "options \<Rightarrow> string \<Rightarrow> bool" where
  "attribute_blacklisted opts prop =
     (case blacklist opts of None \<Rightarrow> False
      | Some bl \<Rightarrow> (case bl_attributes bl of None \<Rightarrow> False
          | Some names \<Rightarrow> 0 \<le> indexOf names prop))"

text \<open>The guard of lines 134-137.\<close>

definition relationship_blacklisted :: "options \<Rightarrow> string \<Rightarrow> bool" where
  "relationship_blacklisted opts prop =
     (case blacklist opts of None \<Rightarrow> False
      | Some bl \<Rightarrow> (case bl_relationships bl of None \<Rightarrow> False
          | Some names \<Rightarrow> 0 \<le> indexOf names prop))"

text \<open>
  The \<open>forEach\<close> of lines 120-127 over the attribute names; \<open>out\<close> is
  \<open>output.attributes\<close>.
\<close>

fun serialize_attributes ::
  "options \<Rightarrow> (string \<times> schema) list option \<Rightarrow> string list \<Rightarrow>
   (string \<times> attribute_model) list \<Rightarrow> js_error + (string \<times> attribute_model) list" where
  "serialize_attributes opts props [] out = Inr out"
| "serialize_attributes opts props (prop # rest) out =
     (if attribute_blacklisted opts prop then serialize_attributes opts props rest out
      else
        bindE (access props (entry prop)) (\<lambda>propSchema.
        bindE (access propSchema s_type) (\<lambda>t.
        serialize_attributes opts props rest (assign prop \<lparr>attr_type = t\<rparr> out))))"

text \<open>
  Lines 140-154 for one relationship: \<open>propSchema.properties.data\<close>, then the first value
  of the enumeration under \<open>items\<close> for an array and under the reference itself otherwise.
\<close>

definition serialize_relationship :: "schema option \<Rightarrow> js_error + relationship_model" where
  "serialize_relationship propSchema =
     bindE (access propSchema s_properties) (\<lambda>ps.
     bindE (access ps (entry ''data'')) (\<lambda>data.
     bindE (access data s_type) (\<lambda>t.
       if t = Some ''array'' then
         bindE (access data s_items) (\<lambda>items.
         bindE (access items s_properties) (\<lambda>ips.
         bindE (access ips (entry ''type'')) (\<lambda>ty.
         bindE (access ty s_enum) (\<lambda>en.
         bindE (access en first_element) (\<lambda>m.
         Inr \<lparr>rel_type = ''hasMany'', model = m\<rparr>)))))
       else
         bindE (access data s_properties) (\<lambda>dps.
         bindE (access dps (entry ''type'')) (\<lambda>ty.
         bindE (access ty s_enum) (\<lambda>en.
         bindE (access en first_element) (\<lambda>m.
         Inr \<lparr>rel_type = ''hasOne'', model = m\<rparr>)))))))"

text \<open>The \<open>forEach\<close> of lines 133-155; \<open>out\<close> is \<open>output.relationships\<close>.\<close>

fun serialize_relationships ::
  "options \<Rightarrow> (string \<times> schema) list option \<Rightarrow> string list \<Rightarrow>
   (string \<times> relationship_model) list \<Rightarrow> js_error + (string \<times> relationship_model) list" where
  "serialize_relationships opts props [] out = Inr out"
| "serialize_relationships opts props (prop # rest) out =
     (if relationship_blacklisted opts prop then serialize_relationships opts props rest out
      else
        bindE (access props (entry prop)) (\<lambda>propSchema.
        bindE (serialize_relationship propSchema) (\<lambda>r.
        serialize_relationships opts props rest (assign prop r out))))"

text \<open>
  \<open>serialize(schema, options)\<close>, lines 114-159. The argument is \<open>entities[type]\<close>.
\<close>

definition serialize :: "schema option \<Rightarrow> options \<Rightarrow> js_error + resource_model" where
  "serialize schema opts =
     bindE (access schema s_properties) (\<lambda>ps.
     bindE (access ps (entry ''attributes'')) (\<lambda>attrs.
     bindE (if attrs \<noteq> None then
              bindE (access attrs s_properties) (\<lambda>aps.
              bindE (object_keys aps) (\<lambda>names.
              bindE (serialize_attributes opts aps names []) (\<lambda>out.
              Inr (Some out))))
            else Inr None) (\<lambda>out_attributes.
     bindE (access ps (entry ''relationships'')) (\<lambda>rels.
     bindE (if rels \<noteq> None then
              bindE (access rels s_properties) (\<lambda>rps.
              bindE (object_keys rps) (\<lambda>names.
              bindE (serialize_relationships opts rps names []) (\<lambda>out.
              Inr (Some out))))
            else Inr None) (\<lambda>out_relationships.
     Inr \<lparr>attributes = out_attributes, relationships = out_relationships\<rparr>)))))"

section \<open>convertToOrbit\<close>

text \<open>The guard of lines 187-190: a whitelist is configured and the type is not on it.\<close>

definition not_whitelisted :: "options \<Rightarrow> string \<Rightarrow> bool" where
  "not_whitelisted opts t =
     (case whitelist opts of None \<Rightarrow> False
      | Some wl \<Rightarrow> (case wl_resources wl of None \<Rightarrow> False
          | Some names \<Rightarrow> indexOf names t < 0))"

text \<open>The \<open>reduce\<close> of lines 185-196; \<open>acc\<close> is the accumulator \<open>schema\<close>.\<close>

fun reduce_types ::
  "options \<Rightarrow> (string \<times> schema) list option \<Rightarrow> string list \<Rightarrow>
   (string \<times> resource_model) list \<Rightarrow> js_error + (string \<times> resource_model) list" where
  "reduce_types opts entities [] acc = Inr acc"
| "reduce_types opts entities (t # ts) acc =
     (if not_whitelisted opts t then reduce_types opts entities ts acc
      else
        bindE (access entities (entry t)) (\<lambda>definition_schema.
        bindE (serialize definition_schema opts) (\<lambda>m.
        reduce_types opts entities ts (assign (replace t '':'' ''--'') m acc))))"

text \<open>
  The ternary of line 183 up to the parsed document: a text body goes through
  \<open>JSON.parse\<close>, which belongs to the platform and is a parameter.
\<close>

definition read_body :: "(string \<Rightarrow> js_error + document) \<Rightarrow> body \<Rightarrow> js_error + document" where
  "read_body JSON_parse b = (case b of Text s \<Rightarrow> JSON_parse s | Parsed d \<Rightarrow> Inr d)"

text \<open>\<open>convertToOrbit(body, options)\<close>, lines 180-201.\<close>

definition convertToOrbit ::
  "(string \<Rightarrow> js_error + document) \<Rightarrow> body \<Rightarrow> options \<Rightarrow> js_error + orbit_schema" where
  "convertToOrbit JSON_parse b opts =
     bindE (read_body JSON_parse b) (\<lambda>d.
     bindE (Inr (definitions d)) (\<lambda>entities.
     bindE (object_keys entities) (\<lambda>types.
     bindE (reduce_types opts entities types []) (\<lambda>orbitSchema.
     Inr \<lparr>models = orbitSchema\<rparr>))))"

section \<open>generate\<close>

text \<open>
  A promise is observed in the state it ends in. The OAuth collaborator
  (\<open>./lib/oauth\<close>) and \<open>axios.get\<close> are parameters: \<open>getToken()\<close> either throws at the
  call (\<open>Inl\<close>) or returns a promise, which carries \<open>oAuth.tokenInformation\<close> as it stands
  when the promise is fulfilled; \<open>axios.get\<close> maps the request to the promise of a response.
\<close>

datatype 'a promise = Pending | Fulfilled 'a | Rejected js_error

record token_information =
  access_token :: "string option"

record request =
  url :: string
  baseURL :: string
  authorization :: string
  accept :: string

record response =
  data :: body

text \<open>
  What a call of \<open>generate\<close> leaves behind: the returned promise, the errors written by
  \<open>console.log\<close>, and the rejection of the inner chain that no handler takes.
\<close>

record generate_outcome =
  returned :: "orbit_schema promise"
  logged :: "js_error list"
  unhandled :: "js_error option"

text \<open>The template literal \<open>`Bearer ${...}`\<close> prints \<open>undefined\<close> for an absent token.\<close>

definition bearer :: "string option \<Rightarrow> string" where
  "bearer tok = ''Bearer '' @ (case tok of None \<Rightarrow> ''undefined'' | Some t \<Rightarrow> t)"

text \<open>
  \<open>generate()\<close>, lines 45-70. An exception in the executor rejects the returned promise;
  \<open>resolve\<close> is called only in the handler of the response, and \<open>reject\<close> nowhere. The
  \<open>catch\<close> of line 65 takes a rejected request and an exception of the handler of line 62.
\<close>

definition generate ::
  "(string \<Rightarrow> js_error + document) \<Rightarrow> js_error + token_information option promise \<Rightarrow>
   (request \<Rightarrow> response promise) \<Rightarrow> options \<Rightarrow> generate_outcome" where
  "generate JSON_parse getToken axios_get opts =
     (case getToken of
        Inl e \<Rightarrow> \<lparr>returned = Rejected e, logged = [], unhandled = None\<rparr>
      | Inr Pending \<Rightarrow> \<lparr>returned = Pending, logged = [], unhandled = None\<rparr>
      | Inr (Rejected e) \<Rightarrow> \<lparr>returned = Pending, logged = [], unhandled = Some e\<rparr>
      | Inr (Fulfilled tokenInformation) \<Rightarrow>
          (case access tokenInformation access_token of
             Inl e \<Rightarrow> \<lparr>returned = Pending, logged = [], unhandled = Some e\<rparr>
           | Inr tok \<Rightarrow>
               (case axios_get \<lparr>url = ''/openapi/jsonapi?_format=json'', baseURL = base opts,
                                 authorization = bearer tok, accept = ''application/json''\<rparr> of
                  Pending \<Rightarrow> \<lparr>returned = Pending, logged = [], unhandled = None\<rparr>
                | Rejected e \<Rightarrow> \<lparr>returned = Pending, logged = [e], unhandled = None\<rparr>
                | Fulfilled r \<Rightarrow>
                    (case convertToOrbit JSON_parse (data r) opts of
                       Inl e \<Rightarrow> \<lparr>returned = Pending, logged = [e], unhandled = None\<rparr>
                     | Inr s \<Rightarrow> \<lparr>returned = Fulfilled s, logged = [], unhandled = None\<rparr>))))"

section \<open>The objects in a store\<close>

text \<open>
  The same code with its objects in a store, to speak of what an invocation leaves behind.
  A value is \<open>undefined\<close>, a string or the address of an object. The document and the
  options are objects of the caller: each is one cell, which holds the whole input object.
  The objects the code creates are cells with their own properties, in the order of
  insertion, and their prototype (\<open>undefined\<close> stands for \<open>Object.prototype\<close>). An
  object literal appends a cell. The objects \<open>JSON.parse\<close> builds from a text body are
  private to the call and stay outside the store.
\<close>

datatype val = Undefined | Str string | Ref nat

datatype cell = Object "(string \<times> val) list" val | Document_cell document | Options_cell options

type_synonym store = "cell list"

text \<open>A step that may throw and may change the store; the store is kept when it throws.\<close>

definition bindS ::
  "(js_error + 'a) \<times> store \<Rightarrow> ('a \<Rightarrow> store \<Rightarrow> (js_error + 'b) \<times> store) \<Rightarrow>
   (js_error + 'b) \<times> store" where
  "bindS m f = (case m of (Inl e, h) \<Rightarrow> (Inl e, h) | (Inr x, h) \<Rightarrow> f x h)"

text \<open>A step that reads only.\<close>

definition lift :: "js_error + 'a \<Rightarrow> store \<Rightarrow> (js_error + 'a) \<times> store" where
  "lift r h = (r, h)"

text \<open>An object literal \<open>{ k: v, ... }\<close>: a new cell with these own properties.\<close>

definition literal :: "(string \<times> val) list \<Rightarrow> store \<Rightarrow> (js_error + val) \<times> store" where
  "literal ps h = (Inr (Ref (length h)), h @ [Object ps Undefined])"

text \<open>
  The assignment \<open>target[k] = v\<close>. On an object of the code it is \<open>assign\<close> on the own
  properties, and for \<open>__proto__\<close> the setter makes an object \<open>v\<close> the prototype. An
  assignment to an input object changes it: its cell is no longer the input. On
  \<open>undefined\<close> it throws, and on a string too, the body of a class being strict code.
\<close>

definition put :: "val \<Rightarrow> string \<Rightarrow> val \<Rightarrow> store \<Rightarrow> (js_error + unit) \<times> store" where
  "put target k v h =
     (case target of
        Undefined \<Rightarrow> (Inl TypeError, h)
      | Str s \<Rightarrow> (Inl TypeError, h)
      | Ref a \<Rightarrow>
          (if a < length h then
             (case h ! a of
                Object ps pr \<Rightarrow>
                  (Inr (), h[a := Object (assign k v ps)
                     (if k = ''__proto__'' then (case v of Ref c \<Rightarrow> v | _ \<Rightarrow> pr) else pr)])
              | _ \<Rightarrow> (Inr (), h[a := Object [(k, v)] Undefined]))
           else (Inr (), h)))"

text \<open>
  The read \<open>v.k\<close> of a property of an object of the code: the own property, else the one
  of the prototype, and so on along the chain (which is shorter than the store).
\<close>

fun chain :: "nat \<Rightarrow> store \<Rightarrow> val \<Rightarrow> string \<Rightarrow> val" where
  "chain 0 h v k = Undefined"
| "chain (Suc n) h (Ref a) k =
     (if a < length h then
        (case h ! a of
           Object ps pr \<Rightarrow> (case map_of ps k of Some x \<Rightarrow> x | None \<Rightarrow> chain n h pr k)
         | _ \<Rightarrow> Undefined)
      else Undefined)"
| "chain (Suc n) h Undefined k = Undefined"
| "chain (Suc n) h (Str s) k = Undefined"

definition get :: "store \<Rightarrow> val \<Rightarrow> string \<Rightarrow> js_error + val" where
  "get h v k = (case v of Undefined \<Rightarrow> Inl TypeError | _ \<Rightarrow> Inr (chain (length h) h v k))"

text \<open>The options object behind a reference; reading a property of \<open>undefined\<close> throws.\<close>

definition options_at :: "store \<Rightarrow> val \<Rightarrow> js_error + options" where
  "options_at h v =
     (case v of
        Ref a \<Rightarrow> (if a < length h then
                    (case h ! a of Options_cell opts \<Rightarrow> Inr opts | _ \<Rightarrow> Inl TypeError)
                  else Inl TypeError)
      | _ \<Rightarrow> Inl TypeError)"

text \<open>The body: a text, which is parsed, or the reference of a parsed document.\<close>

definition body_at :: "store \<Rightarrow> val \<Rightarrow> body option" where
  "body_at h v =
     (case v of
        Str s \<Rightarrow> Some (Text s)
      | Ref a \<Rightarrow> (if a < length h then
                    (case h ! a of Document_cell d \<Rightarrow> Some (Parsed d) | _ \<Rightarrow> None)
                  else None)
      | Undefined \<Rightarrow> None)"

definition read_body_st ::
  "(string \<Rightarrow> js_error + document) \<Rightarrow> store \<Rightarrow> val \<Rightarrow> js_error + document" where
  "read_body_st JSON_parse h v =
     (case body_at h v of None \<Rightarrow> Inl TypeError | Some b \<Rightarrow> read_body JSON_parse b)"

definition val_of :: "string option \<Rightarrow> val" where
  "val_of t = (case t of None \<Rightarrow> Undefined | Some s \<Rightarrow> Str s)"

text \<open>
  Lines 120-127. Each round reads the blacklist from the options object, then evaluates
  \<open>output.attributes\<close>, the literal \<open>{ type: propSchema.type }\<close> and the assignment.
\<close>

fun serialize_attributes_st ::
  "val \<Rightarrow> (string \<times> schema) list option \<Rightarrow> val \<Rightarrow> string list \<Rightarrow> store \<Rightarrow>
   (js_error + unit) \<times> store" where
  "serialize_attributes_st ov props output [] h = (Inr (), h)"
| "serialize_attributes_st ov props output (prop # rest) h =
     bindS (lift (options_at h ov) h) (\<lambda>opts h.
       if attribute_blacklisted opts prop then serialize_attributes_st ov props output rest h
       else
         bindS (lift (access props (entry prop)) h) (\<lambda>propSchema h.
         bindS (lift (get h output ''attributes'') h) (\<lambda>target h.
         bindS (lift (access propSchema s_type) h) (\<lambda>t h.
         bindS (literal [(''type'', val_of t)] h) (\<lambda>c h.
         bindS (put target prop c h) (\<lambda>u h.
         serialize_attributes_st ov props output rest h))))))"

text \<open>
  Lines 140-154 for one relationship: the reads of \<open>serialize_relationship\<close>, then the
  literal \<open>{ type: ..., model: ... }\<close>.
\<close>

definition relationship_literal ::
  "schema option \<Rightarrow> store \<Rightarrow> (js_error + val) \<times> store" where
  "relationship_literal propSchema h =
     bindS (lift (serialize_relationship propSchema) h) (\<lambda>r h.
       literal [(''type'', Str (rel_type r)), (''model'', val_of (model r))] h)"

text \<open>Lines 133-155.\<close>

fun serialize_relationships_st ::
  "val \<Rightarrow> (string \<times> schema) list option \<Rightarrow> val \<Rightarrow> string list \<Rightarrow> store \<Rightarrow>
   (js_error + unit) \<times> store" where
  "serialize_relationships_st ov props output [] h = (Inr (), h)"
| "serialize_relationships_st ov props output (prop # rest) h =
     bindS (lift (options_at h ov) h) (\<lambda>opts h.
       if relationship_blacklisted opts prop
       then serialize_relationships_st ov props output rest h
       else
         bindS (lift (access props (entry prop)) h) (\<lambda>propSchema h.
         bindS (lift (get h output ''relationships'') h) (\<lambda>target h.
         bindS (relationship_literal propSchema h) (\<lambda>c h.
         bindS (put target prop c h) (\<lambda>u h.
         serialize_relationships_st ov props output rest h)))))"

text \<open>Lines 118-128: \<open>output.attributes = {}\<close> and the first loop.\<close>

definition attributes_st ::
  "val \<Rightarrow> schema option \<Rightarrow> val \<Rightarrow> store \<Rightarrow> (js_error + unit) \<times> store" where
  "attributes_st ov attrs output h =
     (if attrs \<noteq> None then
        bindS (literal [] h) (\<lambda>fresh h.
        bindS (put output ''attributes'' fresh h) (\<lambda>u h.
        bindS (lift (access attrs s_properties) h) (\<lambda>aps h.
        bindS (lift (object_keys aps) h) (\<lambda>names h.
        serialize_attributes_st ov aps output names h))))
      else (Inr (), h))"

text \<open>Lines 131-156: \<open>output.relationships = {}\<close> and the second loop.\<close>

definition relationships_st ::
  "val \<Rightarrow> schema option \<Rightarrow> val \<Rightarrow> store \<Rightarrow> (js_error + unit) \<times> store" where
  "relationships_st ov rels output h =
     (if rels \<noteq> None then
        bindS (literal [] h) (\<lambda>fresh h.
        bindS (put output ''relationships'' fresh h) (\<lambda>u h.
        bindS (lift (access rels s_properties) h) (\<lambda>rps h.
        bindS (lift (object_keys rps) h) (\<lambda>names h.
        serialize_relationships_st ov rps output names h))))
      else (Inr (), h))"

text \<open>
  \<open>serialize(schema, options)\<close>, lines 114-159: \<open>let output = {}\<close>, the two parts, and
  \<open>return output\<close>.
\<close>

definition serialize_st ::
  "val \<Rightarrow> schema option \<Rightarrow> store \<Rightarrow> (js_error + val) \<times> store" where
  "serialize_st ov schema h =
     bindS (literal [] h) (\<lambda>output h.
     bindS (lift (access schema s_properties) h) (\<lambda>ps h.
     bindS (lift (access ps (entry ''attributes'')) h) (\<lambda>attrs h.
     bindS (attributes_st ov attrs output h) (\<lambda>u h.
     bindS (lift (access ps (entry ''relationships'')) h) (\<lambda>rels h.
     bindS (relationships_st ov rels output h) (\<lambda>u h.
     (Inr output, h)))))))"

text \<open>The \<open>reduce\<close> of lines 185-196; \<open>acc\<close> is the reference of the accumulator.\<close>

fun reduce_types_st ::
  "val \<Rightarrow> (string \<times> schema) list option \<Rightarrow> string list \<Rightarrow> val \<Rightarrow> store \<Rightarrow>
   (js_error + val) \<times> store" where
  "reduce_types_st ov entities [] acc h = (Inr acc, h)"
| "reduce_types_st ov entities (t # ts) acc h =
     bindS (lift (options_at h ov) h) (\<lambda>opts h.
       if not_whitelisted opts t then reduce_types_st ov entities ts acc h
       else
         bindS (lift (access entities (entry t)) h) (\<lambda>definition_schema h.
         bindS (serialize_st ov definition_schema h) (\<lambda>m h.
         bindS (put acc (replace t '':'' ''--'') m h) (\<lambda>u h.
         reduce_types_st ov entities ts acc h))))"

text \<open>
  \<open>convertToOrbit(body, options)\<close>, lines 180-201, on the references of the body and of
  the options.
\<close>

definition convertToOrbit_st ::
  "(string \<Rightarrow> js_error + document) \<Rightarrow> val \<Rightarrow> val \<Rightarrow> store \<Rightarrow> (js_error + val) \<times> store" where
  "convertToOrbit_st JSON_parse bv ov h =
     bindS (lift (read_body_st JSON_parse h bv) h) (\<lambda>d h.
     bindS (lift (Inr (definitions d)) h) (\<lambda>entities h.
     bindS (lift (object_keys entities) h) (\<lambda>types h.
     bindS (literal [] h) (\<lambda>fresh h.
     bindS (reduce_types_st ov entities types fresh h) (\<lambda>orbitSchema h.
     literal [(''models'', orbitSchema)] h)))))"

text \<open>
  What a value looks like from outside, to a given depth: the keys of an object with the
  look of their values. Prototypes are not part of it.
\<close>

datatype tree = Leaf val | Node "(string \<times> tree) list"

fun view :: "nat \<Rightarrow> store \<Rightarrow> val \<Rightarrow> tree" where
  "view 0 h v = Leaf v"
| "view (Suc n) h (Ref a) =
     (if a < length h then
        (case h ! a of
           Object ps pr \<Rightarrow> Node (map (\<lambda>(k, v). (k, view n h v)) ps)
         | _ \<Rightarrow> Leaf (Ref a))
      else Leaf (Ref a))"
| "view (Suc n) h Undefined = Leaf Undefined"
| "view (Suc n) h (Str s) = Leaf (Str s)"

text \<open>The look of the schemas of the first part.\<close>

definition attribute_tree :: "attribute_model \<Rightarrow> tree" where
  "attribute_tree a = Node [(''type'', Leaf (val_of (attr_type a)))]"

definition relationship_tree :: "relationship_model \<Rightarrow> tree" where
  "relationship_tree r =
     Node [(''type'', Leaf (Str (rel_type r))), (''model'', Leaf (val_of (model r)))]"

definition resource_tree :: "resource_model \<Rightarrow> tree" where
  "resource_tree m = Node
     ((case attributes m of None \<Rightarrow> []
       | Some as \<Rightarrow> [(''attributes'', Node (map (\<lambda>(k, a). (k, attribute_tree a)) as))]) @
      (case relationships m of None \<Rightarrow> []
       | Some rs \<Rightarrow> [(''relationships'', Node (map (\<lambda>(k, r). (k, relationship_tree r)) rs))]))"

definition schema_tree :: "orbit_schema \<Rightarrow> tree" where
  "schema_tree s = Node [(''models'', Node (map (\<lambda>(k, m). (k, resource_tree m)) (models s)))]"

text \<open>The look of the outcome of a call: the error, or the tree of the schema.\<close>

definition outcome :: "store \<Rightarrow> js_error + val \<Rightarrow> js_error + tree" where
  "outcome h r = (case r of Inl e \<Rightarrow> Inl e | Inr v \<Rightarrow> Inr (view 5 h v))"

text \<open>
  The objects that can be reached from a value within a depth are in the store, at
  addresses that satisfy \<open>P\<close>.
\<close>

fun inside :: "nat \<Rightarrow> (nat \<Rightarrow> bool) \<Rightarrow> store \<Rightarrow> val \<Rightarrow> bool" where
  "inside 0 P h v = True"
| "inside (Suc n) P h (Ref a) =
     (a < length h \<and> P a \<and>
      (case h ! a of Object ps pr \<Rightarrow> (\<forall>(k, v) \<in> set ps. inside n P h v) | _ \<Rightarrow> True))"
| "inside (Suc n) P h Undefined = True"
| "inside (Suc n) P h (Str s) = True"

text \<open>
  The object at an address has entries that look like \<open>ts\<close> at a depth, and what they
  reach lies above the object.
\<close>

definition filled :: "nat \<Rightarrow> store \<Rightarrow> nat \<Rightarrow> (string \<times> tree) list \<Rightarrow> bool" where
  "filled d h a ts =
     (a < length h \<and>
      (\<exists>ps pr. h ! a = Object ps pr \<and> map (\<lambda>(k, v). (k, view d h v)) ps = ts \<and>
         (\<forall>(k, v) \<in> set ps. inside d (\<lambda>i. a < i) h v)))"

section \<open>Notions of the specification\<close>

text \<open>
  The output key as the specification words it: every namespace separator (a colon)
  becomes a double hyphen, every other character stays.
\<close>

definition rewrite_every_separator :: "string \<Rightarrow> string" where
  "rewrite_every_separator t = concat (map (\<lambda>c. if c = CHR '':'' then ''--'' else [c]) t)"

text \<open>The data reference of a relationship descriptor, when the descriptor has one.\<close>

definition data_reference :: "schema \<Rightarrow> schema option" where
  "data_reference d = (case s_properties d of None \<Rightarrow> None | Some ps \<Rightarrow> map_of ps ''data'')"

text \<open>
  The target-type enumeration of a node: the \<open>enum\<close> of its property \<open>type\<close>; missing
  when the node has no properties, no property \<open>type\<close>, or that one has no \<open>enum\<close>.
\<close>

definition type_enumeration :: "schema \<Rightarrow> string list option" where
  "type_enumeration x =
     (case s_properties x of None \<Rightarrow> None
      | Some ps \<Rightarrow> (case map_of ps ''type'' of None \<Rightarrow> None | Some ty \<Rightarrow> s_enum ty))"

text \<open>A data reference is a collection type when its \<open>type\<close> is \<open>array\<close>.\<close>

definition is_collection :: "schema \<Rightarrow> bool" where
  "is_collection r = (s_type r = Some ''array'')"

text \<open>
  The enumeration a data reference names its targets by: the one of its items for a
  collection, its own otherwise.
\<close>

definition target_enumeration :: "schema \<Rightarrow> string list option" where
  "target_enumeration r =
     (if is_collection r then (case s_items r of None \<Rightarrow> None | Some it \<Rightarrow> type_enumeration it)
      else type_enumeration r)"

text \<open>
  The target-type enumeration of a relationship descriptor: the one of its data reference;
  missing when the descriptor has no data reference or the reference has no enumeration.
\<close>

definition descriptor_enumeration :: "schema \<Rightarrow> string list option" where
  "descriptor_enumeration d =
     (case data_reference d of None \<Rightarrow> None | Some r \<Rightarrow> target_enumeration r)"

text \<open>The cardinality the code gives a descriptor: \<open>hasMany\<close> for a collection.\<close>

definition cardinality :: "schema \<Rightarrow> string" where
  "cardinality d =
     (case data_reference d of None \<Rightarrow> ''hasOne''
      | Some r \<Rightarrow> if is_collection r then ''hasMany'' else ''hasOne'')"

text \<open>
  A type of the document is emitted when it passes the guard of the whitelist; its key is
  its own when no other emitted type of the document is written to the same key.
\<close>

definition own_key :: "options \<Rightarrow> (string \<times> schema) list \<Rightarrow> string \<Rightarrow> bool" where
  "own_key opts ents t =
     (\<forall>u \<in> fst ` set ents. \<not> not_whitelisted opts u \<longrightarrow>
        replace u '':'' ''--'' = replace t '':'' ''--'' \<longrightarrow> u = t)"


definition in_relationship_blacklist :: "options \<Rightarrow> string \<Rightarrow> bool" where
  "in_relationship_blacklist opts n =
     (\<exists>bl ns. blacklist opts = Some bl \<and> bl_relationships bl = Some ns \<and> n \<in> set ns)"

section \<open>A sample document\<close>

definition leaf :: "string \<Rightarrow> schema" where
  "leaf t = Schema (Some t) None None None"

definition object :: "(string \<times> schema) list \<Rightarrow> schema" where
  "object ps = Schema (Some ''object'') None (Some ps) None"

definition type_of :: "string list \<Rightarrow> schema" where
  "type_of en = Schema (Some ''string'') (Some en) None None"

definition to_one :: "string list \<Rightarrow> schema" where
  "to_one en = object [(''data'', object [(''type'', type_of en), (''id'', leaf ''string'')])]"

definition to_many :: "string list \<Rightarrow> schema" where
  "to_many en =
     object [(''data'', Schema (Some ''array'') None None
       (Some (object [(''type'', type_of en), (''id'', leaf ''string'')])))]"

definition article :: schema where
  "article = object
     [(''type'', leaf ''string''),
      (''attributes'', object [(''title'', leaf ''string''), (''status'', leaf ''boolean'')]),
      (''relationships'', object
         [(''author'', to_one [''user:user'']),
          (''comments'', to_many [''comment:comment'', ''comment:reply''])])]"

definition page :: schema where
  "page = object
     [(''type'', leaf ''string''),
      (''attributes'', object [(''title'', leaf ''string'')])]"

definition site :: document where
  "site = \<lparr>definitions = Some [(''node:article'', article), (''node:page'', page)]\<rparr>"

definition no_parse :: "string \<Rightarrow> js_error + document" where
  "no_parse s = Inl SyntaxError"

definition plain :: options where
  "plain = \<lparr>base = ''https://example.org'', whitelist = None, blacklist = None\<rparr>"

definition filtered :: options where
  "filtered = \<lparr>base = ''https://example.org'',
     whitelist = Some \<lparr>wl_resources = Some [''node:article'']\<rparr>,
     blacklist = Some \<lparr>bl_attributes = Some [''status''],
                       bl_relationships = Some [''comments'']\<rparr>\<rparr>"

text \<open>A type name with two separators.\<close>

definition draft :: document where
  "draft = \<lparr>definitions = Some [(''node:article:draft'', page)]\<rparr>"








text \<open>A relationship whose enumeration is empty, and one whose enumeration is missing.\<close>

definition orphan :: schema where
  "orphan = object [(''relationships'', object [(''owner'', to_one [])])]"

definition untyped :: schema where
  "untyped = object [(''relationships'', object
     [(''owner'', object [(''data'', object [(''type'', leaf ''string'')])])])]"

definition orphans :: document where
  "orphans = \<lparr>definitions = Some [(''node:orphan'', orphan)]\<rparr>"

definition untypeds :: document where
  "untypeds = \<lparr>definitions = Some [(''node:untyped'', untyped)]\<rparr>"

text \<open>A store that holds the sample document and the sample filter.\<close>

definition sample_store :: store where
  "sample_store = [Document_cell site, Options_cell filtered]"

text \<open>Two invocations in a row on that store, with the same two references.\<close>

definition first_call :: "(js_error + val) \<times> store" where
  "first_call = convertToOrbit_st no_parse (Ref 0) (Ref 1) sample_store"

definition second_call :: "(js_error + val) \<times> store" where
  "second_call = convertToOrbit_st no_parse (Ref 0) (Ref 1) (snd first_call)"

section \<open>Facts about the primitives and the loops\<close>

lemma bindE_simps [simp]: "bindE (Inl e) f = Inl e" "bindE (Inr x) f = f x"
  by (simp_all add: bindE_def)

lemma bindE_Inr_iff: "bindE m f = Inr y \<longleftrightarrow> (\<exists>x. m = Inr x \<and> f x = Inr y)"
  by (cases m) simp_all

lemma access_simps [simp]: "access None f = Inl TypeError" "access (Some v) f = Inr (f v)"
  by (simp_all add: access_def)

lemma access_Inr_iff: "access x f = Inr r \<longleftrightarrow> (\<exists>v. x = Some v \<and> r = f v)"
  by (cases x) auto

lemma indexOf_ge_minus_one: "- 1 \<le> indexOf xs x"
  by (induction xs) (auto simp: Let_def)

lemma indexOf_neg_iff: "indexOf xs x < 0 \<longleftrightarrow> x \<notin> set xs"
  by (induction xs) (use indexOf_ge_minus_one in \<open>auto simp: Let_def\<close>)

lemma indexOf_nonneg_iff: "0 \<le> indexOf xs x \<longleftrightarrow> x \<in> set xs"
  using indexOf_neg_iff [of xs x] by linarith

lemma map_of_assign:
  "map_of (assign k v obj) n = (if n = k \<and> k \<noteq> ''__proto__'' then Some v else map_of obj n)"
  by (simp add: assign_def update_conv')

lemma keys_assign:
  "fst ` set (assign k v obj) = (if k = ''__proto__'' then fst ` set obj else insert k (fst ` set obj))"
  by (simp add: assign_def dom_update)

lemma distinct_assign: "distinct (map fst obj) \<Longrightarrow> distinct (map fst (assign k v obj))"
  by (simp add: assign_def distinct_update)

lemma no_proto_assign: "''__proto__'' \<notin> fst ` set obj \<Longrightarrow> ''__proto__'' \<notin> fst ` set (assign k v obj)"
  by (auto simp: keys_assign)

lemma separator_leaves_hyphen:
  "CHR '':'' \<in> set t \<Longrightarrow> CHR ''-'' \<in> set (replace t '':'' ''--'')"
  by (induction t) auto

lemma replace_without_separator: "CHR '':'' \<notin> set t \<Longrightarrow> replace t '':'' ''--'' = t"
  by (induction t) auto

lemma replace_eq_proto: "replace t '':'' ''--'' = ''__proto__'' \<longleftrightarrow> t = ''__proto__''"
proof (cases "CHR '':'' \<in> set t")
  case True
  from separator_leaves_hyphen [OF this] have "replace t '':'' ''--'' \<noteq> ''__proto__''"
    by auto
  moreover from True have "t \<noteq> ''__proto__''" by auto
  ultimately show ?thesis by simp
next
  case False
  then show ?thesis by (simp add: replace_without_separator)
qed


lemma serialize_relationships_lookup:
  "serialize_relationships opts props ks acc = Inr res \<Longrightarrow>
   (n \<in> set ks \<and> \<not> relationship_blacklisted opts n \<longrightarrow>
      (\<exists>obj r. props = Some obj \<and> serialize_relationship (map_of obj n) = Inr r \<and>
         (n \<noteq> ''__proto__'' \<longrightarrow> map_of res n = Some r))) \<and>
   (\<not> (n \<in> set ks \<and> \<not> relationship_blacklisted opts n \<and> n \<noteq> ''__proto__'') \<longrightarrow>
      map_of res n = map_of acc n)"
proof (induction ks arbitrary: acc)
  case Nil
  then show ?case by simp
next
  case (Cons nm rest)
  show ?case
  proof (cases "relationship_blacklisted opts nm")
    case True
    with Cons.prems have "serialize_relationships opts props rest acc = Inr res" by simp
    from Cons.IH [OF this] True show ?thesis by auto
  next
    case False
    with Cons.prems obtain obj r where
      o: "props = Some obj" and a: "serialize_relationship (map_of obj nm) = Inr r" and
      r: "serialize_relationships opts props rest (assign nm r acc) = Inr res"
      by (auto simp: bindE_Inr_iff access_Inr_iff entry_def)
    note ih = Cons.IH [OF r]
    show ?thesis
    proof (cases "n = nm")
      case True
      show ?thesis
      proof (cases "n \<in> set rest")
        case True
        with ih \<open>n = nm\<close> False show ?thesis by (auto simp: map_of_assign)
      next
        case False
        with ih have "map_of res n = map_of (assign nm r acc) n" by simp
        with \<open>n = nm\<close> o a \<open>\<not> relationship_blacklisted opts nm\<close> show ?thesis
          by (auto simp: map_of_assign)
      qed
    next
      case False
      with ih show ?thesis by (auto simp: map_of_assign)
    qed
  qed
qed

lemma reduce_types_keys:
  "reduce_types opts ents ts acc = Inr res \<Longrightarrow>
   fst ` set res = fst ` set acc \<union>
     (\<lambda>t. replace t '':'' ''--'') `
       {t \<in> set ts. \<not> not_whitelisted opts t \<and> t \<noteq> ''__proto__''}"
proof (induction ts arbitrary: acc)
  case Nil
  then show ?case by simp
next
  case (Cons t ts)
  show ?case
  proof (cases "not_whitelisted opts t")
    case True
    with Cons.prems have "reduce_types opts ents ts acc = Inr res" by simp
    from Cons.IH [OF this] True show ?thesis by auto
  next
    case False
    with Cons.prems obtain m where
      r: "reduce_types opts ents ts (assign (replace t '':'' ''--'') m acc) = Inr res"
      by (auto simp: bindE_Inr_iff)
    from Cons.IH [OF r] False show ?thesis
      by (auto simp: keys_assign replace_eq_proto)
  qed
qed

lemma reduce_types_distinct:
  "reduce_types opts ents ts acc = Inr res \<Longrightarrow> distinct (map fst acc) \<Longrightarrow>
   distinct (map fst res)"
proof (induction ts arbitrary: acc)
  case Nil
  then show ?case by simp
next
  case (Cons t ts)
  then show ?case
    by (cases "not_whitelisted opts t") (auto simp: bindE_Inr_iff distinct_assign)
qed

lemma reduce_types_lookup:
  "reduce_types opts ents ts acc = Inr res \<Longrightarrow> map_of res k = Some m \<Longrightarrow>
   map_of acc k = Some m \<or>
   (\<exists>t \<in> set ts. \<not> not_whitelisted opts t \<and> replace t '':'' ''--'' = k \<and>
      (\<exists>obj. ents = Some obj \<and> serialize (map_of obj t) opts = Inr m))"
proof (induction ts arbitrary: acc)
  case Nil
  then show ?case by simp
next
  case (Cons t ts)
  show ?case
  proof (cases "not_whitelisted opts t")
    case True
    with Cons.prems have "reduce_types opts ents ts acc = Inr res" by simp
    from Cons.IH [OF this Cons.prems(2)] show ?thesis by auto
  next
    case False
    with Cons.prems obtain obj m' where
      e: "ents = Some obj" and s: "serialize (map_of obj t) opts = Inr m'" and
      r: "reduce_types opts ents ts (assign (replace t '':'' ''--'') m' acc) = Inr res"
      by (auto simp: bindE_Inr_iff access_Inr_iff entry_def)
    from Cons.IH [OF r Cons.prems(2)] False e s show ?thesis
      by (auto simp: map_of_assign split: if_splits)
  qed
qed

lemma reduce_types_each:
  "reduce_types opts ents ts acc = Inr res \<Longrightarrow> t \<in> set ts \<Longrightarrow> \<not> not_whitelisted opts t \<Longrightarrow>
   \<exists>obj m. ents = Some obj \<and> serialize (map_of obj t) opts = Inr m"
proof (induction ts arbitrary: acc)
  case Nil
  then show ?case by simp
next
  case (Cons u ts)
  show ?case
  proof (cases "not_whitelisted opts u")
    case True
    with Cons.prems have "reduce_types opts ents ts acc = Inr res" "t \<in> set ts" by auto
    from Cons.IH [OF this Cons.prems(3)] show ?thesis .
  next
    case False
    with Cons.prems(1) obtain obj m' where
      e: "ents = Some obj" and s: "serialize (map_of obj u) opts = Inr m'" and
      r: "reduce_types opts ents ts (assign (replace u '':'' ''--'') m' acc) = Inr res"
      by (auto simp: bindE_Inr_iff access_Inr_iff entry_def)
    show ?thesis
    proof (cases "t = u")
      case True
      with e s show ?thesis by blast
    next
      case False
      with Cons.prems(2) have "t \<in> set ts" by simp
      from Cons.IH [OF r this Cons.prems(3)] show ?thesis .
    qed
  qed
qed


lemma bindE_Inl_iff: "bindE m f = Inl e \<longleftrightarrow> m = Inl e \<or> (\<exists>x. m = Inr x \<and> f x = Inl e)"
  by (cases m) simp_all

lemma access_Inl: "access x f = Inl e \<Longrightarrow> e = TypeError"
  by (cases x) auto

lemma object_keys_Inr_iff: "object_keys x = Inr ks \<longleftrightarrow> (\<exists>obj. x = Some obj \<and> ks = map fst obj)"
  by (cases x) (auto simp: object_keys_def)

lemma object_keys_Inl: "object_keys x = Inl e \<Longrightarrow> e = TypeError"
  by (cases x) (auto simp: object_keys_def)

lemma enumeration_path:
  "bindE (access x s_properties) (\<lambda>ps.
   bindE (access ps (entry ''type'')) (\<lambda>ty.
   bindE (access ty s_enum) (\<lambda>en.
   bindE (access en first_element) (\<lambda>m. Inr (f m))))) =
   (case x of None \<Rightarrow> Inl TypeError
    | Some v \<Rightarrow> (case type_enumeration v of None \<Rightarrow> Inl TypeError
        | Some en \<Rightarrow> Inr (f (first_element en))))"
  by (simp add: type_enumeration_def entry_def split: option.splits)

lemma serialize_relationship_Some:
  "serialize_relationship (Some d) =
   (case data_reference d of None \<Rightarrow> Inl TypeError
    | Some ref \<Rightarrow> (case target_enumeration ref of None \<Rightarrow> Inl TypeError
        | Some en \<Rightarrow> Inr \<lparr>rel_type = (if is_collection ref then ''hasMany'' else ''hasOne''),
                          model = first_element en\<rparr>))"
proof (cases "data_reference d")
  case None
  then show ?thesis
    by (auto simp: serialize_relationship_def data_reference_def entry_def split: option.splits)
next
  case (Some ref)
  then obtain ps where ps: "s_properties d = Some ps" "map_of ps ''data'' = Some ref"
    by (auto simp: data_reference_def split: option.splits)
  show ?thesis
  proof (cases "is_collection ref")
    case True
    then have "serialize_relationship (Some d) =
      bindE (access (Some ref) s_items) (\<lambda>items.
        bindE (access items s_properties) (\<lambda>ips.
        bindE (access ips (entry ''type'')) (\<lambda>ty.
        bindE (access ty s_enum) (\<lambda>en.
        bindE (access en first_element) (\<lambda>m.
        Inr \<lparr>rel_type = ''hasMany'', model = m\<rparr>)))))"
      using ps by (simp add: serialize_relationship_def is_collection_def entry_def)
    also have "\<dots> = (case target_enumeration ref of None \<Rightarrow> Inl TypeError
        | Some en \<Rightarrow> Inr \<lparr>rel_type = ''hasMany'', model = first_element en\<rparr>)"
      using True by (simp add: enumeration_path target_enumeration_def split: option.splits)
    finally show ?thesis using Some True by (simp split: option.splits)
  next
    case False
    then have "serialize_relationship (Some d) =
        bindE (access (Some ref) s_properties) (\<lambda>dps.
        bindE (access dps (entry ''type'')) (\<lambda>ty.
        bindE (access ty s_enum) (\<lambda>en.
        bindE (access en first_element) (\<lambda>m.
        Inr \<lparr>rel_type = ''hasOne'', model = m\<rparr>))))"
      using ps by (simp add: serialize_relationship_def is_collection_def entry_def)
    also have "\<dots> = (case target_enumeration ref of None \<Rightarrow> Inl TypeError
        | Some en \<Rightarrow> Inr \<lparr>rel_type = ''hasOne'', model = first_element en\<rparr>)"
      using False by (simp only: enumeration_path) (simp add: target_enumeration_def)
    finally show ?thesis using Some False by (simp split: option.splits)
  qed
qed

lemma serialize_relationship_None: "serialize_relationship None = Inl TypeError"
  by (simp add: serialize_relationship_def)


lemma serialize_relationship_Inl: "serialize_relationship x = Inl e \<Longrightarrow> e = TypeError"
  by (cases x)
    (auto simp: serialize_relationship_None serialize_relationship_Some split: option.splits)

lemma serialize_attributes_Inl:
  "serialize_attributes opts props ks acc = Inl e \<Longrightarrow> e = TypeError"
  by (induction ks arbitrary: acc)
    (auto simp: bindE_Inl_iff split: if_splits dest: access_Inl)

lemma serialize_relationships_Inl:
  "serialize_relationships opts props ks acc = Inl e \<Longrightarrow> e = TypeError"
  by (induction ks arbitrary: acc)
    (auto simp: bindE_Inl_iff split: if_splits dest: access_Inl serialize_relationship_Inl)

lemma serialize_Inl: "serialize x opts = Inl e \<Longrightarrow> e = TypeError"
  unfolding serialize_def
  by (auto simp: bindE_Inl_iff split: if_splits
      dest: access_Inl object_keys_Inl serialize_attributes_Inl serialize_relationships_Inl)

lemma reduce_types_Inl: "reduce_types opts ents ts acc = Inl e \<Longrightarrow> e = TypeError"
  by (induction ts arbitrary: acc)
    (auto simp: bindE_Inl_iff split: if_splits dest: access_Inl serialize_Inl)

lemma serialize_Inr:
  assumes "serialize x opts = Inr m"
  shows "\<exists>s ps. x = Some s \<and> s_properties s = Some ps \<and>
     (case map_of ps ''attributes'' of
        None \<Rightarrow> attributes m = None
      | Some a \<Rightarrow> \<exists>aps res. s_properties a = Some aps \<and>
          serialize_attributes opts (Some aps) (map fst aps) [] = Inr res \<and>
          attributes m = Some res) \<and>
     (case map_of ps ''relationships'' of
        None \<Rightarrow> relationships m = None
      | Some r \<Rightarrow> \<exists>rps res. s_properties r = Some rps \<and>
          serialize_relationships opts (Some rps) (map fst rps) [] = Inr res \<and>
          relationships m = Some res)"
  using assms unfolding serialize_def
  by (auto simp: bindE_Inr_iff access_Inr_iff object_keys_Inr_iff entry_def
      split: if_splits option.splits dest: sym)

lemma convertToOrbit_Inr_iff:
  "convertToOrbit P b opts = Inr out \<longleftrightarrow>
   (\<exists>doc ents res. read_body P b = Inr doc \<and> definitions doc = Some ents \<and>
      reduce_types opts (Some ents) (map fst ents) [] = Inr res \<and> out = \<lparr>models = res\<rparr>)"
  unfolding convertToOrbit_def
  by (auto simp: bindE_Inr_iff object_keys_Inr_iff)

lemma convertToOrbit_Inl:
  "read_body P b = Inr doc \<Longrightarrow> convertToOrbit P b opts = Inl e \<Longrightarrow> e = TypeError"
  unfolding convertToOrbit_def
  by (auto simp: bindE_Inl_iff dest: object_keys_Inl reduce_types_Inl)

section \<open>Facts about the filters and the emitted models\<close>


lemma relationship_blacklisted_iff:
  "relationship_blacklisted opts n \<longleftrightarrow> in_relationship_blacklist opts n"
  by (auto simp: relationship_blacklisted_def in_relationship_blacklist_def indexOf_nonneg_iff
      split: option.splits)


lemma emitted_from_type:
  assumes "convertToOrbit P b opts = Inr out" and "read_body P b = Inr doc"
    and "definitions doc = Some ents" and "map_of (models out) k = Some m"
  shows "\<exists>t \<in> fst ` set ents. \<not> not_whitelisted opts t \<and> replace t '':'' ''--'' = k \<and>
     serialize (map_of ents t) opts = Inr m"
proof -
  from assms(1-3) have "reduce_types opts (Some ents) (map fst ents) [] = Inr (models out)"
    by (auto simp: convertToOrbit_Inr_iff)
  from reduce_types_lookup [OF this assms(4)] show ?thesis by auto
qed

lemma models_distinct:
  assumes "convertToOrbit P b opts = Inr out"
  shows "distinct (map fst (models out))"
proof -
  from assms obtain ents where
    "reduce_types opts (Some ents) (map fst ents) [] = Inr (models out)"
    by (auto simp: convertToOrbit_Inr_iff)
  from reduce_types_distinct [OF this] show ?thesis by simp
qed

lemma emitted_by_serialize:
  assumes "convertToOrbit P b opts = Inr out" and "(k, m) \<in> set (models out)"
  shows "\<exists>x. serialize x opts = Inr m"
proof -
  from assms(1) obtain doc ents where
    d: "read_body P b = Inr doc" "definitions doc = Some ents"
    by (auto simp: convertToOrbit_Inr_iff)
  from models_distinct [OF assms(1)] assms(2) have "map_of (models out) k = Some m"
    by simp
  from emitted_from_type [OF assms(1) d this] show ?thesis by blast
qed


lemma site_filtered:
  "convertToOrbit no_parse (Parsed site) filtered =
     Inr \<lparr>models = [(''node--article'',
       \<lparr>attributes = Some [(''title'', \<lparr>attr_type = Some ''string''\<rparr>)],
        relationships = Some [(''author'', \<lparr>rel_type = ''hasOne'', model = Some ''user:user''\<rparr>)]\<rparr>)]\<rparr>"
  by code_simp


lemma serialized_each:
  assumes "convertToOrbit P b opts = Inr out" and "read_body P b = Inr doc"
    and "definitions doc = Some ents" and "map_of ents t = Some s"
    and "\<not> not_whitelisted opts t"
  shows "\<exists>m. serialize (Some s) opts = Inr m"
proof -
  from assms(1-3) have red: "reduce_types opts (Some ents) (map fst ents) [] = Inr (models out)"
    by (auto simp: convertToOrbit_Inr_iff)
  from assms(4) have "t \<in> set (map fst ents)"
    by (metis map_of_eq_None_iff option.distinct(1) set_map)
  from reduce_types_each [OF red this assms(5)] assms(4) show ?thesis by auto
qed

lemma emitted_at_own_key:
  assumes "convertToOrbit P b opts = Inr out" and "read_body P b = Inr doc"
    and "definitions doc = Some ents" and "map_of ents t = Some s"
    and "\<not> not_whitelisted opts t" and "t \<noteq> ''__proto__''" and "own_key opts ents t"
    and "serialize (Some s) opts = Inr m"
  shows "map_of (models out) (replace t '':'' ''--'') = Some m"
proof -
  from assms(1-3) have red: "reduce_types opts (Some ents) (map fst ents) [] = Inr (models out)"
    by (auto simp: convertToOrbit_Inr_iff)
  from assms(4) have t: "t \<in> set (map fst ents)"
    by (metis map_of_eq_None_iff option.distinct(1) set_map)
  with reduce_types_keys [OF red] assms(5,6)
  have "replace t '':'' ''--'' \<in> fst ` set (models out)" by auto
  then obtain m' where m': "map_of (models out) (replace t '':'' ''--'') = Some m'"
    by (metis map_of_eq_None_iff not_Some_eq)
  from reduce_types_lookup [OF red m'] obtain u where
    u: "u \<in> set (map fst ents)" "\<not> not_whitelisted opts u"
      "replace u '':'' ''--'' = replace t '':'' ''--''"
      "serialize (map_of ents u) opts = Inr m'"
    by auto
  from assms(7) u(1-3) have "u = t" by (auto simp: own_key_def)
  with u(4) assms(4,8) have "m' = m" by simp
  with m' show ?thesis by simp
qed

lemma rewrite_no_separator: "CHR '':'' \<notin> set t \<Longrightarrow> rewrite_every_separator t = t"
  by (induction t) (auto simp: rewrite_every_separator_def)

text \<open>A type name with at most one separator gets the key the specification words.\<close>

lemma replace_one_separator:
  "count_list t CHR '':'' \<le> 1 \<Longrightarrow> replace t '':'' ''--'' = rewrite_every_separator t"
proof (induction t)
  case Nil
  then show ?case by (simp add: rewrite_every_separator_def)
next
  case (Cons c cs)
  show ?case
  proof (cases "c = CHR '':''")
    case True
    with Cons.prems have "CHR '':'' \<notin> set cs"
      by (simp add: count_list_0_iff)
    with True show ?thesis
      using rewrite_no_separator [of cs] by (simp add: rewrite_every_separator_def)
  next
    case False
    with Cons show ?thesis by (simp add: rewrite_every_separator_def)
  qed
qed




lemma orphans_plain:
  "convertToOrbit no_parse (Parsed orphans) plain =
       Inr \<lparr>models = [(''node--orphan'', \<lparr>attributes = None,
         relationships = Some [(''owner'', \<lparr>rel_type = ''hasOne'', model = None\<rparr>)]\<rparr>)]\<rparr>"
  by code_simp

lemma serialize_relationship_descriptor:
  "serialize_relationship (Some d) =
   (case descriptor_enumeration d of None \<Rightarrow> Inl TypeError
    | Some en \<Rightarrow> Inr \<lparr>rel_type = cardinality d, model = first_element en\<rparr>)"
  by (simp add: serialize_relationship_Some descriptor_enumeration_def cardinality_def
      split: option.splits)

section \<open>The whitelist\<close>




section \<open>The key of a resource type\<close>

text \<open>
  C2. The key is the type name with every separator rewritten to a double hyphen. The
  code rewrites the first separator only: the type \<open>node:article:draft\<close> gets the key
  \<open>node--article:draft\<close>, where the rewriting of every separator gives
  \<open>node--article--draft\<close>.
\<close>

theorem key_of_two_separators:
  "convertToOrbit no_parse (Parsed draft) plain =
     Inr \<lparr>models = [(''node--article:draft'',
       \<lparr>attributes = Some [(''title'', \<lparr>attr_type = Some ''string''\<rparr>)],
        relationships = None\<rparr>)]\<rparr> \<and>
   rewrite_every_separator ''node:article:draft'' = ''node--article--draft''"
  by code_simp

section \<open>The blacklists\<close>




text \<open>
  C5. In every model of the output, whatever its resource type, the relationship map
  holds no name of the relationship blacklist.
\<close>

theorem relationship_blacklist_global:
  assumes "convertToOrbit P b opts = Inr out" and "(k, m) \<in> set (models out)"
    and "in_relationship_blacklist opts n" and "relationships m = Some rs"
  shows "n \<notin> fst ` set rs"
proof -
  from emitted_by_serialize [OF assms(1,2)] obtain x where "serialize x opts = Inr m" ..
  from serialize_Inr [OF this] assms(4) obtain rps where
    "serialize_relationships opts (Some rps) (map fst rps) [] = Inr rs"
    by (auto split: option.splits)
  from serialize_relationships_lookup [OF this, of n] assms(3)
  have "map_of rs n = None" by (simp add: relationship_blacklisted_iff)
  then show ?thesis by (simp add: map_of_eq_None_iff)
qed

text \<open>The sample document: \<open>comments\<close> is on the blacklist and absent.\<close>

theorem relationship_blacklist_global_witness:
  "\<exists>out m rs. convertToOrbit no_parse (Parsed site) filtered = Inr out \<and>
     (''node--article'', m) \<in> set (models out) \<and>
     in_relationship_blacklist filtered ''comments'' \<and> relationships m = Some rs \<and>
     ''comments'' \<notin> fst ` set rs"
proof -
  let ?rs = "[(''author'', \<lparr>rel_type = ''hasOne'', model = Some ''user:user''\<rparr>)]"
  let ?m = "\<lparr>attributes = Some [(''title'', \<lparr>attr_type = Some ''string''\<rparr>)],
        relationships = Some ?rs\<rparr>"
  let ?out = "\<lparr>models = [(''node--article'', ?m)]\<rparr>"
  have c: "convertToOrbit no_parse (Parsed site) filtered = Inr ?out"
    by (rule site_filtered)
  have k: "(''node--article'', ?m) \<in> set (models ?out)" by simp
  have b: "in_relationship_blacklist filtered ''comments''"
    by (simp add: in_relationship_blacklist_def filtered_def)
  have r: "relationships ?m = Some ?rs" by simp
  from relationship_blacklist_global [OF c k b r] c k b r show ?thesis by blast
qed

section \<open>The credential step of generate\<close>

text \<open>An exception of \<open>getToken()\<close> at the call rejects the returned promise.\<close>

lemma generate_credential_exception:
  "returned (generate JSON_parse (Inl e) axios_get opts) = Rejected e"
  by (simp add: generate_def)

text \<open>
  C9. A failure of the credential step is to reject the promise \<open>generate\<close> returns. In
  the code, when the promise of \<open>getToken()\<close> is rejected, the returned promise stays
  pending, nothing is logged, and the error is left as an unhandled rejection.
\<close>

theorem generate_credential_rejection:
  "returned (generate JSON_parse (Inr (Rejected e)) axios_get opts) = Pending \<and>
   logged (generate JSON_parse (Inr (Rejected e)) axios_get opts) = [] \<and>
   unhandled (generate JSON_parse (Inr (Rejected e)) axios_get opts) = Some e"
  by (simp add: generate_def)

section \<open>Relationships: cardinality and target\<close>




text \<open>
  C6, as the code has it. For a relationship that is serialized (its type passes the
  whitelist, its name is not on the blacklist): a missing enumeration (no data reference,
  or no enumeration where the code reads it) makes the transformation throw a
  \<open>TypeError\<close>; an empty enumeration throws nothing, and when the transformation returns,
  the model of the type holds the relationship (unless it is named \<open>__proto__\<close>) with its
  cardinality and an undefined model, and this model is the value of the output at the key
  of the type when the type is not named \<open>__proto__\<close> and no other emitted type of the
  document is written to the same key.
\<close>

theorem missing_and_empty_enumeration:
  assumes "read_body P b = Inr doc" and "definitions doc = Some ents"
    and "map_of ents t = Some s" and "\<not> not_whitelisted opts t"
    and "s_properties s = Some ps" and "map_of ps ''relationships'' = Some r"
    and "s_properties r = Some rps" and "map_of rps n = Some d"
    and "\<not> in_relationship_blacklist opts n"
  shows "(descriptor_enumeration d = None \<longrightarrow> convertToOrbit P b opts = Inl TypeError) \<and>
    (descriptor_enumeration d = Some [] \<longrightarrow>
       serialize_relationship (Some d) = Inr \<lparr>rel_type = cardinality d, model = None\<rparr> \<and>
       (\<forall>out. convertToOrbit P b opts = Inr out \<longrightarrow>
          (\<exists>m. serialize (Some s) opts = Inr m \<and>
             (n \<noteq> ''__proto__'' \<longrightarrow>
                (\<exists>rs. relationships m = Some rs \<and>
                   map_of rs n = Some \<lparr>rel_type = cardinality d, model = None\<rparr>)) \<and>
             (t \<noteq> ''__proto__'' \<longrightarrow> own_key opts ents t \<longrightarrow>
                map_of (models out) (replace t '':'' ''--'') = Some m))))"
proof -
  have visited: "\<exists>m rs x. serialize (Some s) opts = Inr m \<and> relationships m = Some rs \<and>
      serialize_relationship (Some d) = Inr x \<and> (n \<noteq> ''__proto__'' \<longrightarrow> map_of rs n = Some x) \<and>
      (t \<noteq> ''__proto__'' \<longrightarrow> own_key opts ents t \<longrightarrow>
         map_of (models out) (replace t '':'' ''--'') = Some m)"
    if c: "convertToOrbit P b opts = Inr out" for out
  proof -
    from serialized_each [OF c assms(1-4)] obtain m where
      m: "serialize (Some s) opts = Inr m" ..
    from serialize_Inr [OF m] assms(5-7) obtain rs where
      rs: "serialize_relationships opts (Some rps) (map fst rps) [] = Inr rs"
        "relationships m = Some rs" by auto
    from assms(8) have "n \<in> set (map fst rps)"
      by (metis map_of_eq_None_iff option.distinct(1) set_map)
    with serialize_relationships_lookup [OF rs(1), of n] assms(8,9) obtain x where
      x: "serialize_relationship (Some d) = Inr x" "n \<noteq> ''__proto__'' \<longrightarrow> map_of rs n = Some x"
      by (auto simp: relationship_blacklisted_iff)
    have "map_of (models out) (replace t '':'' ''--'') = Some m"
      if "t \<noteq> ''__proto__''" "own_key opts ents t"
      by (rule emitted_at_own_key [OF c assms(1-4) that m])
    with m rs(2) x show ?thesis by blast
  qed
  show ?thesis
  proof (intro conjI impI allI)
    assume none: "descriptor_enumeration d = None"
    have "convertToOrbit P b opts \<noteq> Inr out" for out
    proof
      assume "convertToOrbit P b opts = Inr out"
      from visited [OF this] none show False
        by (auto simp: serialize_relationship_descriptor)
    qed
    then obtain e where "convertToOrbit P b opts = Inl e"
      by (cases "convertToOrbit P b opts") auto
    with convertToOrbit_Inl [OF assms(1) this] show "convertToOrbit P b opts = Inl TypeError"
      by simp
  next
    assume "descriptor_enumeration d = Some []"
    then show "serialize_relationship (Some d) = Inr \<lparr>rel_type = cardinality d, model = None\<rparr>"
      by (simp add: serialize_relationship_descriptor first_element_def)
  next
    fix out
    assume empty: "descriptor_enumeration d = Some []"
      and c: "convertToOrbit P b opts = Inr out"
    from empty have x: "serialize_relationship (Some d) =
        Inr \<lparr>rel_type = cardinality d, model = None\<rparr>"
      by (simp add: serialize_relationship_descriptor first_element_def)
    from visited [OF c] x
    show "\<exists>m. serialize (Some s) opts = Inr m \<and>
             (n \<noteq> ''__proto__'' \<longrightarrow>
                (\<exists>rs. relationships m = Some rs \<and>
                   map_of rs n = Some \<lparr>rel_type = cardinality d, model = None\<rparr>)) \<and>
             (t \<noteq> ''__proto__'' \<longrightarrow> own_key opts ents t \<longrightarrow>
                map_of (models out) (replace t '':'' ''--'') = Some m)"
      by auto
  qed
qed

text \<open>A missing enumeration in the document \<open>untypeds\<close>, an empty one in \<open>orphans\<close>.\<close>

theorem missing_and_empty_enumeration_witness:
  "descriptor_enumeration (object [(''data'', object [(''type'', leaf ''string'')])]) = None \<and>
   convertToOrbit no_parse (Parsed untypeds) plain = Inl TypeError \<and>
   descriptor_enumeration (to_one []) = Some [] \<and>
   own_key plain [(''node:orphan'', orphan)] ''node:orphan'' \<and>
   (\<exists>out m rs. convertToOrbit no_parse (Parsed orphans) plain = Inr out \<and>
      map_of (models out) ''node--orphan'' = Some m \<and> relationships m = Some rs \<and>
      map_of rs ''owner'' = Some \<lparr>rel_type = ''hasOne'', model = None\<rparr>)"
proof -
  let ?d = "object [(''data'', object [(''type'', leaf ''string'')])]"
  let ?rps = "[(''owner'', ?d)]"
  let ?ps = "[(''relationships'', object ?rps)]"
  have b: "read_body no_parse (Parsed untypeds) = Inr untypeds" by (simp add: read_body_def)
  have e: "definitions untypeds = Some [(''node:untyped'', untyped)]"
    by (simp add: untypeds_def)
  have t: "map_of [(''node:untyped'', untyped)] ''node:untyped'' = Some untyped" by simp
  have w: "\<not> not_whitelisted plain ''node:untyped''"
    by (simp add: not_whitelisted_def plain_def)
  have p: "s_properties untyped = Some ?ps" by (simp add: untyped_def object_def)
  have r: "map_of ?ps ''relationships'' = Some (object ?rps)" by simp
  have q: "s_properties (object ?rps) = Some ?rps" by (simp add: object_def)
  have o: "map_of ?rps ''owner'' = Some ?d" by simp
  have n: "\<not> in_relationship_blacklist plain ''owner''"
    by (simp add: in_relationship_blacklist_def plain_def)
  have none: "descriptor_enumeration ?d = None"
    by (simp add: descriptor_enumeration_def data_reference_def target_enumeration_def
        is_collection_def type_enumeration_def object_def leaf_def)
  from missing_and_empty_enumeration [OF b e t w p r q o n, THEN conjunct1, rule_format, OF none]
  have one: "convertToOrbit no_parse (Parsed untypeds) plain = Inl TypeError" .
  let ?rps' = "[(''owner'', to_one [])]"
  let ?ps' = "[(''relationships'', object ?rps')]"
  define out where "out = \<lparr>models = [(''node--orphan'', \<lparr>attributes = None,
         relationships = Some [(''owner'', \<lparr>rel_type = ''hasOne'', model = None\<rparr>)]\<rparr>)]\<rparr>"
  have c': "convertToOrbit no_parse (Parsed orphans) plain = Inr out"
    unfolding out_def by (rule orphans_plain)
  have b': "read_body no_parse (Parsed orphans) = Inr orphans" by (simp add: read_body_def)
  have e': "definitions orphans = Some [(''node:orphan'', orphan)]"
    by (simp add: orphans_def)
  have t': "map_of [(''node:orphan'', orphan)] ''node:orphan'' = Some orphan" by simp
  have w': "\<not> not_whitelisted plain ''node:orphan''"
    by (simp add: not_whitelisted_def plain_def)
  have p': "s_properties orphan = Some ?ps'" by (simp add: orphan_def object_def)
  have r': "map_of ?ps' ''relationships'' = Some (object ?rps')" by simp
  have q': "s_properties (object ?rps') = Some ?rps'" by (simp add: object_def)
  have o': "map_of ?rps' ''owner'' = Some (to_one [])" by simp
  have empty: "descriptor_enumeration (to_one []) = Some []"
    by (simp add: descriptor_enumeration_def data_reference_def to_one_def
        target_enumeration_def is_collection_def type_enumeration_def object_def type_of_def)
  have card: "cardinality (to_one []) = ''hasOne''"
    by (simp add: cardinality_def data_reference_def to_one_def is_collection_def object_def)
  have own: "own_key plain [(''node:orphan'', orphan)] ''node:orphan''"
    by (simp add: own_key_def)
  have no: "''owner'' \<noteq> ''__proto__''" and nt: "''node:orphan'' \<noteq> ''__proto__''" by simp_all
  from missing_and_empty_enumeration [OF b' e' t' w' p' r' q' o' n, THEN conjunct2, rule_format,
      OF empty, THEN conjunct2, rule_format, OF c']
  obtain m where
    rel: "''owner'' \<noteq> ''__proto__'' \<longrightarrow>
      (\<exists>rs. relationships m = Some rs \<and>
         map_of rs ''owner'' = Some \<lparr>rel_type = cardinality (to_one []), model = None\<rparr>)"
    and key: "''node:orphan'' \<noteq> ''__proto__'' \<longrightarrow> own_key plain [(''node:orphan'', orphan)] ''node:orphan'' \<longrightarrow>
      map_of (models out) (replace ''node:orphan'' '':'' ''--'') = Some m"
    by (elim exE conjE)
  from rel no card obtain rs where
    rs: "relationships m = Some rs"
      "map_of rs ''owner'' = Some \<lparr>rel_type = ''hasOne'', model = None\<rparr>"
    by auto
  from key nt own have "map_of (models out) (replace ''node:orphan'' '':'' ''--'') = Some m"
    by simp
  then have km: "map_of (models out) ''node--orphan'' = Some m" by simp
  from c' km rs have "\<exists>out m rs. convertToOrbit no_parse (Parsed orphans) plain = Inr out \<and>
      map_of (models out) ''node--orphan'' = Some m \<and> relationships m = Some rs \<and>
      map_of rs ''owner'' = Some \<lparr>rel_type = ''hasOne'', model = None\<rparr>"
    by blast
  with none one empty own show ?thesis by simp
qed

text \<open>
  C6, as the claim words it, fails for the empty enumeration: the document \<open>orphans\<close> has
  the relationship \<open>owner\<close> with an empty enumeration, and the transformation returns a
  schema that holds \<open>owner\<close>.
\<close>

theorem empty_enumeration_counterexample:
  "\<exists>d. definitions orphans = Some [(''node:orphan'', orphan)] \<and>
     orphan = object [(''relationships'', object [(''owner'', d)])] \<and>
     descriptor_enumeration d = Some [] \<and>
     convertToOrbit no_parse (Parsed orphans) plain =
       Inr \<lparr>models = [(''node--orphan'', \<lparr>attributes = None,
         relationships = Some [(''owner'', \<lparr>rel_type = ''hasOne'', model = None\<rparr>)]\<rparr>)]\<rparr>"
proof -
  have e: "descriptor_enumeration (to_one []) = Some []"
    by (simp add: descriptor_enumeration_def data_reference_def to_one_def
        target_enumeration_def is_collection_def type_enumeration_def object_def type_of_def)
  have d: "definitions orphans = Some [(''node:orphan'', orphan)]"
    by (simp add: orphans_def)
  have o: "orphan = object [(''relationships'', object [(''owner'', to_one [])])]"
    by (simp add: orphan_def)
  from d o e orphans_plain show ?thesis by blast
qed

section \<open>Presence of the sub-maps\<close>



section \<open>A whitelist without resources\<close>










section \<open>Facts about the store\<close>

text \<open>
  The frame of each part of the code on the store, and its result in terms of the functions
  of the first part: the cells that were there are left as they were, apart from the
  objects the code itself created, and what the result looks like is the schema computed
  by \<open>serialize\<close>, \<open>reduce_types\<close> and \<open>convertToOrbit\<close>.
\<close>

lemma bindS_simps [simp]: "bindS (Inl e, h) f = (Inl e, h)" "bindS (Inr x, h) f = f x h"
  by (simp_all add: bindS_def)

lemma lift_simp [simp]: "lift r h = (r, h)"
  by (simp add: lift_def)

lemma map_assign:
  "map (\<lambda>(k, v). (k, f v)) (assign k0 v0 ps) = assign k0 (f v0) (map (\<lambda>(k, v). (k, f v)) ps)"
proof -
  have "map (\<lambda>(k, v). (k, f v)) (AList.update k0 v0 ps) =
      AList.update k0 (f v0) (map (\<lambda>(k, v). (k, f v)) ps)"
    by (induction ps) auto
  then show ?thesis by (simp add: assign_def)
qed

lemma set_assign: "set (assign k v ps) \<subseteq> insert (k, v) (set ps)"
proof -
  have "set (AList.update k v ps) \<subseteq> insert (k, v) (set ps)"
    by (induction ps) auto
  then show ?thesis by (auto simp: assign_def)
qed

lemma inside_mono:
  "inside n P h v \<Longrightarrow> (\<And>i. P i \<Longrightarrow> Q i) \<Longrightarrow> inside n Q h v"
proof (induction n arbitrary: v)
  case 0
  then show ?case by simp
next
  case (Suc n)
  then show ?case
    by (cases v) (auto split: cell.splits)
qed

lemma view_frame:
  assumes "inside n P h v" and "length h \<le> length h'"
    and "\<And>i. i < length h \<Longrightarrow> P i \<Longrightarrow> h' ! i = h ! i"
  shows "view n h' v = view n h v \<and> inside n P h' v"
  using assms(1)
proof (induction n arbitrary: v)
  case 0
  then show ?case by simp
next
  case (Suc n)
  show ?case
  proof (cases v)
    case (Ref a)
    with Suc.prems have a: "a < length h" "P a" by auto
    with assms(2,3) have same: "h' ! a = h ! a" "a < length h'" by auto
    show ?thesis
    proof (cases "h ! a")
      case (Object ps pr)
      with Suc.prems Ref have "\<forall>(k, w) \<in> set ps. inside n P h w" by auto
      with Suc.IH have "\<forall>(k, w) \<in> set ps. view n h' w = view n h w \<and> inside n P h' w"
        by auto
      with Ref Object a same show ?thesis by (auto intro!: map_cong)
    next
      case (Document_cell d)
      with Ref a same show ?thesis by simp
    next
      case (Options_cell x)
      with Ref a same show ?thesis by simp
    qed
  qed simp_all
qed

lemma filled_frame:
  assumes "filled d h a ts" and "length h \<le> length h'"
    and "\<And>i. i < length h \<Longrightarrow> a \<le> i \<Longrightarrow> h' ! i = h ! i"
  shows "filled d h' a ts"
proof -
  from assms(1) obtain ps pr where
    a: "a < length h" "h ! a = Object ps pr"
    and ts: "map (\<lambda>(k, v). (k, view d h v)) ps = ts"
    and ins: "\<forall>(k, v) \<in> set ps. inside d (\<lambda>i. a < i) h v"
    by (auto simp: filled_def)
  have fr: "view d h' v = view d h v \<and> inside d (\<lambda>i. a < i) h' v" if "(k, v) \<in> set ps" for k v
  proof (rule view_frame [OF _ assms(2)])
    from ins that show "inside d (\<lambda>i. a < i) h v" by auto
  qed (simp add: assms(3))
  then have "map (\<lambda>(k, v). (k, view d h' v)) ps = map (\<lambda>(k, v). (k, view d h v)) ps"
    by (auto intro!: map_cong)
  with a ts fr assms(2,3) show ?thesis
    by (auto simp: filled_def)
qed

lemma filled_view:
  assumes "filled d h a ts"
  shows "view (Suc d) h (Ref a) = Node ts \<and> inside (Suc d) (\<lambda>i. a \<le> i) h (Ref a)"
proof -
  from assms obtain ps pr where
    a: "a < length h" "h ! a = Object ps pr"
    and ts: "map (\<lambda>(k, v). (k, view d h v)) ps = ts"
    and ins: "\<forall>(k, v) \<in> set ps. inside d (\<lambda>i. a < i) h v"
    by (auto simp: filled_def)
  from ins have "\<forall>(k, v) \<in> set ps. inside d (\<lambda>i. a \<le> i) h v"
    by (auto intro: inside_mono)
  with a ts show ?thesis by simp
qed

lemma put_filled:
  assumes "filled d h a ts" and "inside d (\<lambda>i. a < i) h c"
  shows "\<exists>h'. put (Ref a) k c h = (Inr (), h') \<and> length h' = length h \<and>
     (\<forall>i < length h. i \<noteq> a \<longrightarrow> h' ! i = h ! i) \<and>
     filled d h' a (assign k (view d h c) ts)"
proof -
  from assms(1) obtain ps pr where
    a: "a < length h" "h ! a = Object ps pr"
    and ts: "map (\<lambda>(k, v). (k, view d h v)) ps = ts"
    and ins: "\<forall>(k, v) \<in> set ps. inside d (\<lambda>i. a < i) h v"
    by (auto simp: filled_def)
  define pr' where "pr' = (if k = ''__proto__'' then (case c of Ref x \<Rightarrow> c | _ \<Rightarrow> pr) else pr)"
  define h' where "h' = h[a := Object (assign k c ps) pr']"
  have p: "put (Ref a) k c h = (Inr (), h')"
    using a by (simp add: put_def h'_def pr'_def)
  have len: "length h' = length h" by (simp add: h'_def)
  have other: "h' ! i = h ! i" if "i \<noteq> a" for i
    using that by (simp add: h'_def)
  have fr: "view d h' v = view d h v \<and> inside d (\<lambda>i. a < i) h' v"
    if "inside d (\<lambda>i. a < i) h v" for v
    by (rule view_frame [OF that]) (simp_all add: len other)
  have cell: "h' ! a = Object (assign k c ps) pr'"
    using a by (simp add: h'_def)
  have "map (\<lambda>(k, v). (k, view d h' v)) (assign k c ps) =
      assign k (view d h' c) (map (\<lambda>(k, v). (k, view d h' v)) ps)"
    by (rule map_assign)
  also have "map (\<lambda>(k, v). (k, view d h' v)) ps = map (\<lambda>(k, v). (k, view d h v)) ps"
    using ins fr by (auto intro!: map_cong)
  also have "view d h' c = view d h c" using fr [OF assms(2)] by simp
  finally have m: "map (\<lambda>(k, v). (k, view d h' v)) (assign k c ps) = assign k (view d h c) ts"
    using ts by simp
  have "inside d (\<lambda>i. a < i) h' v" if "(j, v) \<in> set (assign k c ps)" for j v
  proof -
    from that set_assign [of k c ps] have "v = c \<or> (j, v) \<in> set ps" by auto
    with ins assms(2) fr show ?thesis by auto
  qed
  with a cell m len have "filled d h' a (assign k (view d h c) ts)"
    by (auto simp: filled_def)
  with p len other show ?thesis by auto
qed

lemma get_own:
  assumes "a < length h" and "h ! a = Object ps pr" and "map_of ps k = Some x"
  shows "get h (Ref a) k = Inr x"
proof -
  from assms(1) obtain n where "length h = Suc n" by (cases "length h") auto
  with assms show ?thesis by (simp add: get_def)
qed

lemma options_at_cell:
  "oa < length h \<Longrightarrow> h ! oa = Options_cell opts \<Longrightarrow> options_at h (Ref oa) = Inr opts"
  by (simp add: options_at_def)

lemma literal_leaves:
  assumes "\<forall>(k, v) \<in> set ps. \<forall>a. v \<noteq> Ref a"
  shows "view 1 (h @ [Object ps Undefined]) (Ref (length h)) = Node (map (\<lambda>(k, v). (k, Leaf v)) ps)"
  by simp

lemma literal_inside:
  "P (length h) \<Longrightarrow> inside 1 P (h @ [Object ps Undefined]) (Ref (length h))"
  by auto

lemma filled_literal:
  assumes "filled d h a ts"
  shows "filled d (h @ [c]) a ts"
  by (rule filled_frame [OF assms]) (simp_all add: nth_append)

lemma serialize_attributes_st_spec:
  assumes "serialize_attributes_st (Ref oa) props (Ref out) ks h = (r, h')"
    and "oa < length h" and "h ! oa = Options_cell opts"
    and "out < length h" and "h ! out = Object ops opr"
    and "map_of ops ''attributes'' = Some (Ref a)" and "out \<noteq> a"
    and "filled 1 h a (map (\<lambda>(k, x). (k, attribute_tree x)) acc)"
  shows "length h \<le> length h' \<and> (\<forall>i < length h. i \<noteq> a \<longrightarrow> h' ! i = h ! i) \<and>
    (case serialize_attributes opts props ks acc of
       Inl e \<Rightarrow> r = Inl e
     | Inr res \<Rightarrow> r = Inr () \<and> filled 1 h' a (map (\<lambda>(k, x). (k, attribute_tree x)) res))"
  using assms
proof (induction ks arbitrary: h acc ops opr)
  case Nil
  then show ?case by simp
next
  case (Cons nm rest)
  note oa = options_at_cell [OF Cons.prems(2,3)]
  from Cons.prems(8,3) have ao: "a \<noteq> oa" by (auto simp: filled_def)
  show ?case
  proof (cases "attribute_blacklisted opts nm")
    case True
    with Cons.prems(1) oa have "serialize_attributes_st (Ref oa) props (Ref out) rest h = (r, h')"
      by simp
    from Cons.IH [OF this Cons.prems(2-8)] True show ?thesis by simp
  next
    case False
    show ?thesis
    proof (cases "access props (entry nm)")
      case (Inl e)
      with Cons.prems(1) oa False show ?thesis by simp
    next
      case (Inr propSchema)
      note g = get_own [OF Cons.prems(4,5,6)]
      show ?thesis
      proof (cases "access propSchema s_type")
        case (Inl e)
        with Cons.prems(1) oa False Inr g show ?thesis by simp
      next
        case t: (Inr t)
        define h1 where "h1 = h @ [Object [(''type'', val_of t)] Undefined]"
        define c where "c = Ref (length h)"
        have f1: "filled 1 h1 a (map (\<lambda>(k, x). (k, attribute_tree x)) acc)"
          unfolding h1_def by (rule filled_literal [OF Cons.prems(8)])
        from Cons.prems(8) have al: "a < length h" by (simp add: filled_def)
        then have ci: "inside 1 (\<lambda>i. a < i) h1 c"
          unfolding h1_def c_def by (intro literal_inside)
        have cv: "view 1 h1 c = attribute_tree \<lparr>attr_type = t\<rparr>"
          by (simp add: h1_def c_def attribute_tree_def)
        from put_filled [OF f1 ci, of nm] obtain h2 where
          p: "put (Ref a) nm c h1 = (Inr (), h2)" and len: "length h2 = length h1"
          and other: "\<forall>i < length h1. i \<noteq> a \<longrightarrow> h2 ! i = h1 ! i"
          and f2: "filled 1 h2 a
            (assign nm (view 1 h1 c) (map (\<lambda>(k, x). (k, attribute_tree x)) acc))"
          by blast
        from f2 cv have f2': "filled 1 h2 a
            (map (\<lambda>(k, x). (k, attribute_tree x)) (assign nm \<lparr>attr_type = t\<rparr> acc))"
          by (simp add: map_assign)
        have l1: "length h1 = Suc (length h)" by (simp add: h1_def)
        have keep: "h2 ! i = h ! i" if "i < length h" "i \<noteq> a" for i
          using that other l1 by (simp add: h1_def nth_append)
        from Cons.prems(1) oa False Inr g t p
        have run: "serialize_attributes_st (Ref oa) props (Ref out) rest h2 = (r, h')"
          by (simp add: literal_def h1_def c_def)
        have o2: "oa < length h2" "h2 ! oa = Options_cell opts"
          using Cons.prems(2,3) ao len l1 keep by auto
        have out2: "out < length h2" "h2 ! out = Object ops opr"
          using Cons.prems(4,5,7) len l1 keep by auto
        note ih = Cons.IH [OF run o2 out2 Cons.prems(6,7) f2']
        from ih len l1 have "length h \<le> length h'" by simp
        moreover from ih keep len l1 have "\<forall>i < length h. i \<noteq> a \<longrightarrow> h' ! i = h ! i"
          by auto
        moreover from Inr t False obtain obj x where
          "props = Some obj" "map_of obj nm = Some x" "s_type x = t"
          by (auto simp: access_Inr_iff entry_def)
        with False have "serialize_attributes opts props (nm # rest) acc =
            serialize_attributes opts props rest (assign nm \<lparr>attr_type = t\<rparr> acc)"
          by (simp add: entry_def)
        ultimately show ?thesis using ih by simp
      qed
    qed
  qed
qed

lemma serialize_relationships_st_spec:
  assumes "serialize_relationships_st (Ref oa) props (Ref out) ks h = (r, h')"
    and "oa < length h" and "h ! oa = Options_cell opts"
    and "out < length h" and "h ! out = Object ops opr"
    and "map_of ops ''relationships'' = Some (Ref a)" and "out \<noteq> a"
    and "filled 1 h a (map (\<lambda>(k, x). (k, relationship_tree x)) acc)"
  shows "length h \<le> length h' \<and> (\<forall>i < length h. i \<noteq> a \<longrightarrow> h' ! i = h ! i) \<and>
    (case serialize_relationships opts props ks acc of
       Inl e \<Rightarrow> r = Inl e
     | Inr res \<Rightarrow> r = Inr () \<and> filled 1 h' a (map (\<lambda>(k, x). (k, relationship_tree x)) res))"
  using assms
proof (induction ks arbitrary: h acc ops opr)
  case Nil
  then show ?case by simp
next
  case (Cons nm rest)
  note oa = options_at_cell [OF Cons.prems(2,3)]
  from Cons.prems(8,3) have ao: "a \<noteq> oa" by (auto simp: filled_def)
  show ?case
  proof (cases "relationship_blacklisted opts nm")
    case True
    with Cons.prems(1) oa
    have "serialize_relationships_st (Ref oa) props (Ref out) rest h = (r, h')"
      by simp
    from Cons.IH [OF this Cons.prems(2-8)] True show ?thesis by simp
  next
    case False
    show ?thesis
    proof (cases "access props (entry nm)")
      case (Inl e)
      with Cons.prems(1) oa False show ?thesis by simp
    next
      case (Inr propSchema)
      note g = get_own [OF Cons.prems(4,5,6)]
      show ?thesis
      proof (cases "serialize_relationship propSchema")
        case (Inl e)
        with Cons.prems(1) oa False Inr g show ?thesis
          by (simp add: relationship_literal_def)
      next
        case x: (Inr x)
        define h1 where
          "h1 = h @ [Object [(''type'', Str (rel_type x)), (''model'', val_of (model x))] Undefined]"
        define c where "c = Ref (length h)"
        have f1: "filled 1 h1 a (map (\<lambda>(k, x). (k, relationship_tree x)) acc)"
          unfolding h1_def by (rule filled_literal [OF Cons.prems(8)])
        from Cons.prems(8) have al: "a < length h" by (simp add: filled_def)
        then have ci: "inside 1 (\<lambda>i. a < i) h1 c"
          unfolding h1_def c_def by (intro literal_inside)
        have cv: "view 1 h1 c = relationship_tree x"
          by (simp add: h1_def c_def relationship_tree_def)
        from put_filled [OF f1 ci, of nm] obtain h2 where
          p: "put (Ref a) nm c h1 = (Inr (), h2)" and len: "length h2 = length h1"
          and other: "\<forall>i < length h1. i \<noteq> a \<longrightarrow> h2 ! i = h1 ! i"
          and f2: "filled 1 h2 a
            (assign nm (view 1 h1 c) (map (\<lambda>(k, x). (k, relationship_tree x)) acc))"
          by blast
        from f2 cv have f2': "filled 1 h2 a
            (map (\<lambda>(k, x). (k, relationship_tree x)) (assign nm x acc))"
          by (simp add: map_assign)
        have l1: "length h1 = Suc (length h)" by (simp add: h1_def)
        have keep: "h2 ! i = h ! i" if "i < length h" "i \<noteq> a" for i
          using that other l1 by (simp add: h1_def nth_append)
        from Cons.prems(1) oa False Inr g x p
        have run: "serialize_relationships_st (Ref oa) props (Ref out) rest h2 = (r, h')"
          by (simp add: relationship_literal_def literal_def h1_def c_def)
        have o2: "oa < length h2" "h2 ! oa = Options_cell opts"
          using Cons.prems(2,3) ao len l1 keep by auto
        have out2: "out < length h2" "h2 ! out = Object ops opr"
          using Cons.prems(4,5,7) len l1 keep by auto
        note ih = Cons.IH [OF run o2 out2 Cons.prems(6,7) f2']
        from ih len l1 have "length h \<le> length h'" by simp
        moreover from ih keep len l1 have "\<forall>i < length h. i \<noteq> a \<longrightarrow> h' ! i = h ! i"
          by auto
        moreover from Inr x False
        have "serialize_relationships opts props (nm # rest) acc =
            serialize_relationships opts props rest (assign nm x acc)"
          by simp
        ultimately show ?thesis using ih by simp
      qed
    qed
  qed
qed

lemma put_fresh_key:
  assumes "a < length h" and "h ! a = Object ps Undefined" and "k \<noteq> ''__proto__''"
    and "map_of ps k = None"
  shows "put (Ref a) k v h = (Inr (), h[a := Object (ps @ [(k, v)]) Undefined])"
proof -
  have "AList.update k v ps = ps @ [(k, v)]" using assms(4)
    by (induction ps) (auto split: if_splits)
  with assms show ?thesis by (simp add: put_def assign_def)
qed

lemma attributes_block:
  assumes run0: "attributes_st (Ref oa) attrs (Ref out) h = (r, h')"
    and oa: "oa < length h" "h ! oa = Options_cell opts"
    and out: "out < length h" "h ! out = Object [] Undefined"
  shows "length h \<le> length h' \<and> (\<forall>i < length h. i \<noteq> out \<longrightarrow> h' ! i = h ! i) \<and>
    (case (if attrs \<noteq> None then
              bindE (access attrs s_properties) (\<lambda>aps.
              bindE (object_keys aps) (\<lambda>names.
              bindE (serialize_attributes opts aps names []) (\<lambda>out.
              Inr (Some out))))
            else Inr None) of
       Inl e \<Rightarrow> r = Inl e
     | Inr None \<Rightarrow> r = Inr () \<and> h' = h
     | Inr (Some res) \<Rightarrow> r = Inr () \<and> h' ! out = Object [(''attributes'', Ref (length h))] Undefined \<and>
         filled 1 h' (length h) (map (\<lambda>(k, x). (k, attribute_tree x)) res))"
proof -
  note run = run0 [unfolded attributes_st_def]
  show ?thesis
  proof (cases attrs)
  case None
  with run show ?thesis by simp
next
  case (Some a)
  define h1 where "h1 = h @ [Object [] Undefined]"
  define h2 where "h2 = h1[out := Object [(''attributes'', Ref (length h))] Undefined]"
  have l: "length h2 = Suc (length h)" by (simp add: h2_def h1_def)
  have p: "put (Ref out) ''attributes'' (Ref (length h)) h1 = (Inr (), h2)"
    unfolding h2_def using put_fresh_key [of out h1 "[]" "''attributes''" "Ref (length h)"] out
    by (simp add: h1_def nth_append)
  have keep: "h2 ! i = h ! i" if "i < length h" "i \<noteq> out" for i
    using that by (simp add: h2_def h1_def nth_append)
  have outc: "h2 ! out = Object [(''attributes'', Ref (length h))] Undefined"
    using out by (simp add: h2_def h1_def)
  have fresh: "h2 ! length h = Object [] Undefined"
    using out by (simp add: h2_def h1_def nth_append)
  show ?thesis
  proof (cases "s_properties a")
    case None
    with run Some p l keep outc show ?thesis
      by (auto simp: literal_def h1_def object_keys_def)
  next
    case aps: (Some aps)
    with run Some p
    have loop: "serialize_attributes_st (Ref oa) (Some aps) (Ref out) (map fst aps) h2 = (r, h')"
      by (simp add: literal_def h1_def object_keys_def)
    from oa out have "oa \<noteq> out" by auto
    then have o2: "oa < length h2" "h2 ! oa = Options_cell opts"
      using oa l keep [of oa] by auto
    have out2: "out < length h2" using out l by simp
    have m: "map_of [(''attributes'', Ref (length h))] ''attributes'' = Some (Ref (length h))"
      by simp
    have ne: "out \<noteq> length h" using out by simp
    have f: "filled 1 h2 (length h) (map (\<lambda>(k, x). (k, attribute_tree x)) [])"
      using fresh l by (simp add: filled_def)
    note spec = serialize_attributes_st_spec [OF loop o2 out2 outc m ne f]
    from spec l have "length h \<le> length h'" by simp
    moreover from spec keep l have "\<forall>i < length h. i \<noteq> out \<longrightarrow> h' ! i = h ! i" by auto
    moreover from spec ne out2 outc
    have "h' ! out = Object [(''attributes'', Ref (length h))] Undefined" by auto
    ultimately show ?thesis using spec Some aps
      by (auto simp: object_keys_def split: sum.splits)
  qed
qed
qed

lemma relationships_block:
  assumes run0: "relationships_st (Ref oa) rels (Ref out) h = (r, h')"
    and oa: "oa < length h" "h ! oa = Options_cell opts"
    and out: "out < length h" "h ! out = Object ops Undefined"
      "map_of ops ''relationships'' = None"
  shows "length h \<le> length h' \<and> (\<forall>i < length h. i \<noteq> out \<longrightarrow> h' ! i = h ! i) \<and>
    (case (if rels \<noteq> None then
              bindE (access rels s_properties) (\<lambda>rps.
              bindE (object_keys rps) (\<lambda>names.
              bindE (serialize_relationships opts rps names []) (\<lambda>out.
              Inr (Some out))))
            else Inr None) of
       Inl e \<Rightarrow> r = Inl e
     | Inr None \<Rightarrow> r = Inr () \<and> h' = h
     | Inr (Some res) \<Rightarrow> r = Inr () \<and>
         h' ! out = Object (ops @ [(''relationships'', Ref (length h))]) Undefined \<and>
         filled 1 h' (length h) (map (\<lambda>(k, x). (k, relationship_tree x)) res))"
proof -
  note run = run0 [unfolded relationships_st_def]
  show ?thesis
  proof (cases rels)
  case None
  with run show ?thesis by simp
next
  case (Some a)
  define h1 where "h1 = h @ [Object [] Undefined]"
  define h2 where "h2 = h1[out := Object (ops @ [(''relationships'', Ref (length h))]) Undefined]"
  have l: "length h2 = Suc (length h)" by (simp add: h2_def h1_def)
  have p: "put (Ref out) ''relationships'' (Ref (length h)) h1 = (Inr (), h2)"
    unfolding h2_def
    using put_fresh_key [of out h1 ops "''relationships''" "Ref (length h)"] out
    by (simp add: h1_def nth_append)
  have keep: "h2 ! i = h ! i" if "i < length h" "i \<noteq> out" for i
    using that by (simp add: h2_def h1_def nth_append)
  have outc: "h2 ! out = Object (ops @ [(''relationships'', Ref (length h))]) Undefined"
    using out by (simp add: h2_def h1_def)
  have fresh: "h2 ! length h = Object [] Undefined"
    using out by (simp add: h2_def h1_def nth_append)
  show ?thesis
  proof (cases "s_properties a")
    case None
    with run Some p l keep outc show ?thesis
      by (auto simp: literal_def h1_def object_keys_def)
  next
    case rps: (Some rps)
    with run Some p
    have loop: "serialize_relationships_st (Ref oa) (Some rps) (Ref out) (map fst rps) h2 = (r, h')"
      by (simp add: literal_def h1_def object_keys_def)
    from oa out have "oa \<noteq> out" by auto
    then have o2: "oa < length h2" "h2 ! oa = Options_cell opts"
      using oa l keep [of oa] by auto
    have out2: "out < length h2" using out l by simp
    have m: "map_of (ops @ [(''relationships'', Ref (length h))]) ''relationships'' =
        Some (Ref (length h))"
      using out(3) by (simp add: map_add_def)
    have ne: "out \<noteq> length h" using out by simp
    have f: "filled 1 h2 (length h) (map (\<lambda>(k, x). (k, relationship_tree x)) [])"
      using fresh l by (simp add: filled_def)
    note spec = serialize_relationships_st_spec [OF loop o2 out2 outc m ne f]
    from spec l have "length h \<le> length h'" by simp
    moreover from spec keep l have "\<forall>i < length h. i \<noteq> out \<longrightarrow> h' ! i = h ! i" by auto
    moreover from spec ne out2 outc
    have "h' ! out = Object (ops @ [(''relationships'', Ref (length h))]) Undefined" by auto
    ultimately show ?thesis using spec Some rps
      by (auto simp: object_keys_def split: sum.splits)
  qed
qed
qed


lemma serialize_st_spec:
  assumes run: "serialize_st (Ref oa) schema h = (r, h')"
    and oa: "oa < length h" "h ! oa = Options_cell opts"
  shows "length h \<le> length h' \<and> (\<forall>i < length h. h' ! i = h ! i) \<and>
    (case serialize schema opts of
       Inl e \<Rightarrow> r = Inl e
     | Inr m \<Rightarrow> r = Inr (Ref (length h)) \<and>
         view 3 h' (Ref (length h)) = resource_tree m \<and>
         inside 3 (\<lambda>i. length h \<le> i) h' (Ref (length h)))"
proof -
  let ?out = "length h"
  let ?h0 = "h @ [Object [] Undefined]"
  have l0: "length ?h0 = Suc (length h)" by simp
  have two: "(2::nat) = Suc 1" by simp
  have three: "(3::nat) = Suc 2" by simp
  have k0: "?h0 ! i = h ! i" if "i < length h" for i using that by (simp add: nth_append)
  have out0: "?out < length ?h0" "?h0 ! ?out = Object [] Undefined"
    by simp_all
  have oa0: "oa < length ?h0" "?h0 ! oa = Options_cell opts"
    using oa k0 by auto
  show ?thesis
  proof (cases "access schema s_properties")
    case (Inl e)
    with run k0 show ?thesis
      by (auto simp: serialize_st_def serialize_def literal_def)
  next
    case ps: (Inr ps)
    show ?thesis
    proof (cases "access ps (entry ''attributes'')")
      case (Inl e)
      with run ps k0 show ?thesis
        by (auto simp: serialize_st_def serialize_def literal_def)
    next
      case attrs: (Inr attrs)
      then obtain obj where obj: "ps = Some obj" by (auto simp: access_Inr_iff)
      define rels where "rels = map_of obj ''relationships''"
      from obj have rels: "access ps (entry ''relationships'') = Inr rels"
        by (simp add: entry_def rels_def)
      define pa where "pa = (if attrs \<noteq> None then
              bindE (access attrs s_properties) (\<lambda>aps.
              bindE (object_keys aps) (\<lambda>names.
              bindE (serialize_attributes opts aps names []) (\<lambda>out.
              Inr (Some out))))
            else Inr None)"
      define pr where "pr = (if rels \<noteq> None then
              bindE (access rels s_properties) (\<lambda>rps.
              bindE (object_keys rps) (\<lambda>names.
              bindE (serialize_relationships opts rps names []) (\<lambda>out.
              Inr (Some out))))
            else Inr None)"
      have pure: "serialize schema opts =
          bindE pa (\<lambda>x. bindE pr (\<lambda>y. Inr \<lparr>attributes = x, relationships = y\<rparr>))"
        using ps attrs rels by (simp add: serialize_def pa_def pr_def)
      obtain ra ha where blockA: "attributes_st (Ref oa) attrs (Ref ?out) ?h0 = (ra, ha)"
        by (cases "attributes_st (Ref oa) attrs (Ref ?out) ?h0") auto
      note specA = attributes_block [OF blockA oa0 out0, folded pa_def]
      from specA have la: "length ?h0 \<le> length ha"
        and ka: "\<forall>i < length ?h0. i \<noteq> ?out \<longrightarrow> ha ! i = ?h0 ! i" by auto
      have keepa: "ha ! i = h ! i" if "i < length h" for i
        using that ka k0 by auto
      from run ps attrs blockA rels
      have run2: "bindS (ra, ha) (\<lambda>u h.
          bindS (relationships_st (Ref oa) rels (Ref ?out) h) (\<lambda>u h. (Inr (Ref ?out), h))) =
          (r, h')"
        by (simp add: serialize_st_def literal_def)
      show ?thesis
      proof (cases pa)
        case (Inl e)
        with specA have "ra = Inl e" by simp
        with run2 have "r = Inl e" "h' = ha" by simp_all
        with pure Inl la keepa show ?thesis by simp
      next
        case x: (Inr x)
        with specA have ra: "ra = Inr ()" by (cases x) simp_all
        define opsa where
          "opsa = (case x of None \<Rightarrow> [] | Some res \<Rightarrow> [(''attributes'', Ref (length ?h0))])"
        from specA x out0 have outa: "ha ! ?out = Object opsa Undefined"
          by (cases x) (simp_all add: opsa_def)
        have norel: "map_of opsa ''relationships'' = None"
          by (cases x) (simp_all add: opsa_def)
        have outl: "?out < length ha" using la by simp
        have oaa: "oa < length ha" "ha ! oa = Options_cell opts"
          using oa keepa la by auto
        obtain rr hr where blockR: "relationships_st (Ref oa) rels (Ref ?out) ha = (rr, hr)"
          by (cases "relationships_st (Ref oa) rels (Ref ?out) ha") auto
        note specR = relationships_block [OF blockR oaa outl outa norel, folded pr_def]
        from specR have lr: "length ha \<le> length hr"
          and kr: "\<forall>i < length ha. i \<noteq> ?out \<longrightarrow> hr ! i = ha ! i" by auto
        have keepr: "hr ! i = h ! i" if "i < length h" for i
          using that kr keepa la by auto
        from run2 ra blockR
        have run3: "bindS (rr, hr) (\<lambda>u h. (Inr (Ref ?out), h)) = (r, h')"
          by simp
        have len: "length h \<le> length hr" using la lr by simp
        show ?thesis
        proof (cases pr)
          case (Inl e)
          with specR have "rr = Inl e" by simp
          with run3 have "r = Inl e" "h' = hr" by simp_all
          with pure x Inl len keepr show ?thesis by simp
        next
          case y: (Inr y)
          with specR have "rr = Inr ()" by (cases y) simp_all
          with run3 have r: "r = Inr (Ref ?out)" "h' = hr" by simp_all
          define opsr where
            "opsr = (case y of None \<Rightarrow> [] | Some res \<Rightarrow> [(''relationships'', Ref (length ha))])"
          from specR y outa have outr: "hr ! ?out = Object (opsa @ opsr) Undefined"
            by (cases y) (simp_all add: opsr_def)
          have av: "view 2 hr (Ref (length ?h0)) =
                Node (map (\<lambda>(k, a). (k, attribute_tree a)) res) \<and>
              inside 2 (\<lambda>i. length h < i) hr (Ref (length ?h0))"
            if "x = Some res" for res
          proof -
            from specA x that
            have "filled 1 ha (length ?h0) (map (\<lambda>(k, a). (k, attribute_tree a)) res)" by simp
            then have f: "filled 1 hr (length ?h0) (map (\<lambda>(k, a). (k, attribute_tree a)) res)"
              by (rule filled_frame [OF _ lr]) (use kr in auto)
            from filled_view [OF f]
            have v: "view (Suc 1) hr (Ref (length ?h0)) =
                Node (map (\<lambda>(k, a). (k, attribute_tree a)) res)"
              and i: "inside (Suc 1) (\<lambda>i. length ?h0 \<le> i) hr (Ref (length ?h0))"
              by (rule conjunct1, rule conjunct2)
            have "inside (Suc 1) (\<lambda>i. length h < i) hr (Ref (length ?h0))"
              by (rule inside_mono [OF i]) simp
            with v show ?thesis unfolding two by (rule conjI)
          qed
          have rv: "view 2 hr (Ref (length ha)) =
                Node (map (\<lambda>(k, a). (k, relationship_tree a)) res) \<and>
              inside 2 (\<lambda>i. length h < i) hr (Ref (length ha))"
            if "y = Some res" for res
          proof -
            from specR y that
            have f: "filled 1 hr (length ha) (map (\<lambda>(k, a). (k, relationship_tree a)) res)"
              by simp
            from filled_view [OF f]
            have v: "view (Suc 1) hr (Ref (length ha)) =
                Node (map (\<lambda>(k, a). (k, relationship_tree a)) res)"
              and i: "inside (Suc 1) (\<lambda>i. length ha \<le> i) hr (Ref (length ha))"
              by (rule conjunct1, rule conjunct2)
            have "inside (Suc 1) (\<lambda>i. length h < i) hr (Ref (length ha))"
              by (rule inside_mono [OF i]) (use la in simp)
            with v show ?thesis unfolding two by (rule conjI)
          qed
          have outlr: "?out < length hr" using outl lr by simp
          define ts where "ts =
              (case x of None \<Rightarrow> []
               | Some as \<Rightarrow> [(''attributes'', Node (map (\<lambda>(k, a). (k, attribute_tree a)) as))]) @
              (case y of None \<Rightarrow> []
               | Some rs \<Rightarrow> [(''relationships'', Node (map (\<lambda>(k, r). (k, relationship_tree r)) rs))])"
          have rt: "resource_tree \<lparr>attributes = x, relationships = y\<rparr> = Node ts"
            by (simp add: resource_tree_def ts_def)
          have fl: "filled 2 hr ?out ts"
            unfolding filled_def ts_def using outlr outr av rv
            by (cases x; cases y) (simp_all add: opsa_def opsr_def)
          from filled_view [OF fl]
          have "view (Suc 2) hr (Ref ?out) = Node ts"
            and "inside (Suc 2) (\<lambda>i. ?out \<le> i) hr (Ref ?out)"
            by (rule conjunct1, rule conjunct2)
          then have "view 3 hr (Ref ?out) = resource_tree \<lparr>attributes = x, relationships = y\<rparr> \<and>
              inside 3 (\<lambda>i. length h \<le> i) hr (Ref ?out)"
            unfolding three rt by (rule conjI)
          with pure x y r len keepr show ?thesis by simp
        qed
      qed
    qed
  qed
qed

lemma reduce_types_st_spec:
  assumes "reduce_types_st (Ref oa) entities ts (Ref M) h = (r, h')"
    and "oa < length h" and "h ! oa = Options_cell opts"
    and "filled 3 h M (map (\<lambda>(k, m). (k, resource_tree m)) acc)"
  shows "length h \<le> length h' \<and> (\<forall>i < length h. i \<noteq> M \<longrightarrow> h' ! i = h ! i) \<and>
    (case reduce_types opts entities ts acc of
       Inl e \<Rightarrow> r = Inl e
     | Inr res \<Rightarrow> r = Inr (Ref M) \<and>
         filled 3 h' M (map (\<lambda>(k, m). (k, resource_tree m)) res))"
  using assms
proof (induction ts arbitrary: acc h)
  case Nil
  then show ?case by simp
next
  case (Cons t ts)
  note run = Cons.prems(1) and oa = Cons.prems(2,3) and M = Cons.prems(4)
  have opts: "options_at h (Ref oa) = Inr opts"
    using oa by (rule options_at_cell)
  from M have Ml: "M < length h" and "\<exists>ps pr. h ! M = Object ps pr"
    by (auto simp: filled_def)
  with oa have ne: "oa \<noteq> M" by auto
  show ?case
  proof (cases "not_whitelisted opts t")
    case True
    with run opts have "reduce_types_st (Ref oa) entities ts (Ref M) h = (r, h')"
      by simp
    from Cons.IH [OF this oa M] True show ?thesis by simp
  next
    case False
    show ?thesis
    proof (cases "access entities (entry t)")
      case (Inl e)
      with run opts False show ?thesis by simp
    next
      case ds: (Inr ds)
      obtain rs hs where ser: "serialize_st (Ref oa) ds h = (rs, hs)"
        by (cases "serialize_st (Ref oa) ds h") auto
      note specS = serialize_st_spec [OF ser oa]
      from specS have ls: "length h \<le> length hs"
        and ks: "\<forall>i < length h. hs ! i = h ! i" by auto
      from run opts False ds ser
      have run2: "bindS (rs, hs) (\<lambda>m h.
          bindS (put (Ref M) (replace t '':'' ''--'') m h) (\<lambda>u h.
          reduce_types_st (Ref oa) entities ts (Ref M) h)) = (r, h')"
        by simp
      show ?thesis
      proof (cases "serialize ds opts")
        case (Inl e)
        with specS have "rs = Inl e" by simp
        with run2 have "r = Inl e" "h' = hs" by simp_all
        with False ds Inl ls ks show ?thesis by simp
      next
        case m: (Inr m)
        with specS have rs: "rs = Inr (Ref (length h))"
          and vm: "view 3 hs (Ref (length h)) = resource_tree m"
          and im: "inside 3 (\<lambda>i. length h \<le> i) hs (Ref (length h))"
          by simp_all
        have Ms: "filled 3 hs M (map (\<lambda>(k, m). (k, resource_tree m)) acc)"
          by (rule filled_frame [OF M ls]) (use ks in simp)
        have im': "inside 3 (\<lambda>i. M < i) hs (Ref (length h))"
          by (rule inside_mono [OF im]) (use Ml in simp)
        from put_filled [OF Ms im', of "replace t '':'' ''--''"]
        obtain h2 where
          put: "put (Ref M) (replace t '':'' ''--'') (Ref (length h)) hs = (Inr (), h2)"
          and l2: "length h2 = length hs"
          and k2: "\<forall>i < length hs. i \<noteq> M \<longrightarrow> h2 ! i = hs ! i"
          and M2: "filled 3 h2 M (assign (replace t '':'' ''--'') (view 3 hs (Ref (length h)))
              (map (\<lambda>(k, m). (k, resource_tree m)) acc))"
          by (elim exE conjE)
        from M2 have M2': "filled 3 h2 M (map (\<lambda>(k, m). (k, resource_tree m))
            (assign (replace t '':'' ''--'') m acc))"
          by (simp only: vm map_assign)
        from run2 rs put
        have run3: "reduce_types_st (Ref oa) entities ts (Ref M) h2 = (r, h')"
          by simp
        have oa2: "oa < length h2" "h2 ! oa = Options_cell opts"
          using oa ne ls l2 ks k2 by auto
        note ih = Cons.IH [OF run3 oa2 M2']
        from ih have "length h \<le> length h'" using ls l2 by simp
        moreover have "\<forall>i < length h. i \<noteq> M \<longrightarrow> h' ! i = h ! i"
          using ih ls l2 ks k2 by auto
        moreover from ih False ds m
        have "case reduce_types opts entities (t # ts) acc of
            Inl e \<Rightarrow> r = Inl e
          | Inr res \<Rightarrow> r = Inr (Ref M) \<and>
              filled 3 h' M (map (\<lambda>(k, m). (k, resource_tree m)) res)"
          by simp
        ultimately show ?thesis by blast
      qed
    qed
  qed
qed

lemma view_literal:
  "view (Suc d) (h @ [Object ps pr]) (Ref (length h)) =
     Node (map (\<lambda>(k, v). (k, view d (h @ [Object ps pr]) v)) ps)"
  by simp

lemma inside_literal:
  "inside (Suc d) P (h @ [Object ps pr]) (Ref (length h)) =
     (P (length h) \<and> (\<forall>(k, v) \<in> set ps. inside d P (h @ [Object ps pr]) v))"
  by simp

lemma convertToOrbit_st_spec:
  assumes run: "convertToOrbit_st JSON_parse bv (Ref oa) h = (r, h')"
    and bd: "body_at h bv = Some bd"
    and oa: "oa < length h" "h ! oa = Options_cell opts"
  shows "length h \<le> length h' \<and> (\<forall>i < length h. h' ! i = h ! i) \<and>
    outcome h' r = map_sum id schema_tree (convertToOrbit JSON_parse bd opts) \<and>
    (\<forall>v. r = Inr v \<longrightarrow> inside 5 (\<lambda>i. length h \<le> i) h' v)"
proof (cases "read_body JSON_parse bd")
  case (Inl e)
  with run bd show ?thesis
    by (auto simp: convertToOrbit_st_def convertToOrbit_def read_body_st_def outcome_def)
next
  case d: (Inr d)
  show ?thesis
  proof (cases "object_keys (definitions d)")
    case (Inl e)
    with run bd d show ?thesis
      by (auto simp: convertToOrbit_st_def convertToOrbit_def read_body_st_def outcome_def)
  next
    case types: (Inr types)
    let ?M = "length h"
    let ?h0 = "h @ [Object [] Undefined]"
    have k0: "?h0 ! i = h ! i" if "i < length h" for i using that by (simp add: nth_append)
    have oa0: "oa < length ?h0" "?h0 ! oa = Options_cell opts"
      using oa k0 by auto
    have M0: "filled 3 ?h0 ?M (map (\<lambda>(k, m). (k, resource_tree m)) [])"
      by (simp add: filled_def)
    obtain rr hr where red: "reduce_types_st (Ref oa) (definitions d) types (Ref ?M) ?h0 = (rr, hr)"
      by (cases "reduce_types_st (Ref oa) (definitions d) types (Ref ?M) ?h0") auto
    note specR = reduce_types_st_spec [OF red oa0 M0]
    from specR have lr: "length ?h0 \<le> length hr"
      and kr: "\<forall>i < length ?h0. i \<noteq> ?M \<longrightarrow> hr ! i = ?h0 ! i" by auto
    have keep: "hr ! i = h ! i" if "i < length h" for i
      using that kr k0 by auto
    from run bd d types red
    have run2: "bindS (rr, hr) (\<lambda>orbitSchema h. literal [(''models'', orbitSchema)] h) = (r, h')"
      by (simp add: convertToOrbit_st_def read_body_st_def literal_def)
    have pure: "convertToOrbit JSON_parse bd opts =
        bindE (reduce_types opts (definitions d) types []) (\<lambda>s. Inr \<lparr>models = s\<rparr>)"
      using d types by (simp add: convertToOrbit_def)
    show ?thesis
    proof (cases "reduce_types opts (definitions d) types []")
      case (Inl e)
      with specR have "rr = Inl e" by simp
      with run2 have "r = Inl e" "h' = hr" by simp_all
      with pure Inl lr keep show ?thesis by (simp add: outcome_def)
    next
      case res: (Inr res)
      with specR have rr: "rr = Inr (Ref ?M)"
        and fl: "filled 3 hr ?M (map (\<lambda>(k, m). (k, resource_tree m)) res)"
        by simp_all
      from run2 rr have r: "r = Inr (Ref (length hr))"
        and h': "h' = hr @ [Object [(''models'', Ref ?M)] Undefined]"
        by (simp_all add: literal_def)
      from filled_view [OF fl]
      have v: "view 4 hr (Ref ?M) = Node (map (\<lambda>(k, m). (k, resource_tree m)) res)"
        and i: "inside 4 (\<lambda>i. ?M \<le> i) hr (Ref ?M)"
        by (simp_all del: view.simps inside.simps)
      have vi: "view 4 h' (Ref ?M) = view 4 hr (Ref ?M) \<and> inside 4 (\<lambda>i. ?M \<le> i) h' (Ref ?M)"
        by (rule view_frame [OF i]) (simp_all add: h' nth_append)
      with v have v': "view 4 h' (Ref ?M) = Node (map (\<lambda>(k, m). (k, resource_tree m)) res)"
        by simp
      have ins: "inside 5 (\<lambda>i. ?M \<le> i) h' (Ref (length hr))"
        using inside_literal [of 4 "\<lambda>i. ?M \<le> i" hr "[(''models'', Ref ?M)]" Undefined] vi lr
        by (simp add: h' del: inside.simps)
      have "view 5 h' (Ref (length hr)) = Node [(''models'', view 4 h' (Ref ?M))]"
        using view_literal [of 4 hr "[(''models'', Ref ?M)]" Undefined]
        by (simp add: h' del: view.simps)
      with v' have "view 5 h' (Ref (length hr)) = schema_tree \<lparr>models = res\<rparr>"
        by (simp add: schema_tree_def)
      moreover have "length h \<le> length h'" using lr by (simp add: h')
      moreover have "\<forall>i < length h. h' ! i = h ! i"
        using keep lr by (simp add: h' nth_append)
      ultimately show ?thesis using pure res r ins by (simp add: outcome_def)
    qed
  qed
qed


lemma outcome_frame:
  assumes "\<forall>v. r = Inr v \<longrightarrow> inside 5 P h v" and "length h \<le> length h'"
    and "\<forall>i < length h. h' ! i = h ! i"
  shows "outcome h' r = outcome h r"
proof (cases r)
  case (Inl e)
  then show ?thesis by (simp add: outcome_def)
next
  case (Inr v)
  with assms(1) have "inside 5 P h v" by simp
  from view_frame [OF this assms(2)] assms(3) have "view 5 h' v = view 5 h v" by simp
  with Inr show ?thesis by (simp add: outcome_def)
qed

lemma options_at_Inr:
  "options_at h ov = Inr opts \<Longrightarrow> \<exists>oa. ov = Ref oa \<and> oa < length h \<and> h ! oa = Options_cell opts"
  by (auto simp: options_at_def split: val.splits if_splits cell.splits)

lemma body_at_frame:
  assumes "body_at h bv = Some bd" and "length h \<le> length h'"
    and "\<forall>i < length h. h' ! i = h ! i"
  shows "body_at h' bv = Some bd"
  using assms by (auto simp: body_at_def split: val.splits if_splits cell.splits)

section \<open>Two invocations in a row\<close>

text \<open>
  C8. \<open>convertToOrbit\<close> is deterministic and leaves nothing behind that a later
  invocation could see. The body is a text or the reference of a document object, the
  options are the reference of an options object, and the same two references are passed
  twice, the second invocation starting in the store the first one left. Then the first
  invocation leaves every cell that was there as it was, and so does the second with the
  cells of the first, its output included; the two outcomes, looked at in the final store,
  are the same error or schemas with the same keys and values all the way down; and the
  outcome is the one \<open>convertToOrbit\<close> of the first part computes from the body and the
  options. The keys are compared in their order of insertion, which is finer than the
  comparison of the claim.
\<close>

theorem convertToOrbit_st_deterministic:
  assumes bd: "body_at h bv = Some bd" and opts: "options_at h ov = Inr opts"
    and run1: "convertToOrbit_st JSON_parse bv ov h = (r1, h1)"
    and run2: "convertToOrbit_st JSON_parse bv ov h1 = (r2, h2)"
  shows "take (length h) h1 = h \<and> take (length h1) h2 = h1 \<and>
    outcome h2 r1 = outcome h2 r2 \<and>
    outcome h2 r2 = map_sum id schema_tree (convertToOrbit JSON_parse bd opts)"
proof -
  from options_at_Inr [OF opts] obtain oa where
    ov: "ov = Ref oa" and oa: "oa < length h" "h ! oa = Options_cell opts"
    by (elim exE conjE)
  note spec1 = convertToOrbit_st_spec [OF run1 [unfolded ov] bd oa]
  from spec1 have l1: "length h \<le> length h1" and k1: "\<forall>i < length h. h1 ! i = h ! i"
    and o1: "outcome h1 r1 = map_sum id schema_tree (convertToOrbit JSON_parse bd opts)"
    and i1: "\<forall>v. r1 = Inr v \<longrightarrow> inside 5 (\<lambda>i. length h \<le> i) h1 v"
    by blast+
  have bd1: "body_at h1 bv = Some bd" using bd l1 k1 by (rule body_at_frame)
  have oa1: "oa < length h1" "h1 ! oa = Options_cell opts"
    using oa l1 k1 by auto
  note spec2 = convertToOrbit_st_spec [OF run2 [unfolded ov] bd1 oa1]
  from spec2 have l2: "length h1 \<le> length h2" and k2: "\<forall>i < length h1. h2 ! i = h1 ! i"
    and o2: "outcome h2 r2 = map_sum id schema_tree (convertToOrbit JSON_parse bd opts)"
    by blast+
  have "outcome h2 r1 = outcome h1 r1" using i1 l2 k2 by (rule outcome_frame)
  with o1 o2 have "outcome h2 r1 = outcome h2 r2" by simp
  moreover have "take (length h) h1 = h"
    using l1 k1 by (simp add: list_eq_iff_nth_eq)
  moreover have "take (length h1) h2 = h1"
    using l2 k2 by (simp add: list_eq_iff_nth_eq)
  ultimately show ?thesis using o2 by simp
qed

theorem convertToOrbit_st_deterministic_witness:
  "body_at sample_store (Ref 0) = Some (Parsed site) \<and>
   options_at sample_store (Ref 1) = Inr filtered \<and>
   fst first_call = Inr (Ref 8) \<and> fst second_call = Inr (Ref 15) \<and>
   take (length sample_store) (snd first_call) = sample_store \<and>
   take (length (snd first_call)) (snd second_call) = snd first_call \<and>
   outcome (snd second_call) (fst first_call) = outcome (snd second_call) (fst second_call) \<and>
   outcome (snd second_call) (fst second_call) =
     Inr (Node [(''models'', Node [(''node--article'', Node
       [(''attributes'', Node [(''title'', Node [(''type'', Leaf (Str ''string''))])]),
        (''relationships'', Node [(''author'', Node
          [(''type'', Leaf (Str ''hasOne'')), (''model'', Leaf (Str ''user:user''))])])])])])"
proof -
  have b: "body_at sample_store (Ref 0) = Some (Parsed site)"
    by (simp add: body_at_def sample_store_def)
  have o: "options_at sample_store (Ref 1) = Inr filtered"
    by (simp add: options_at_def sample_store_def)
  have c1: "convertToOrbit_st no_parse (Ref 0) (Ref 1) sample_store =
      (fst first_call, snd first_call)"
    by (simp add: first_call_def)
  have c2: "convertToOrbit_st no_parse (Ref 0) (Ref 1) (snd first_call) =
      (fst second_call, snd second_call)"
    by (simp add: second_call_def)
  have r1: "fst first_call = Inr (Ref 8)"
    by code_simp
  have r2: "fst second_call = Inr (Ref 15)"
    by code_simp
  have pure: "map_sum id schema_tree (convertToOrbit no_parse (Parsed site) filtered) =
     Inr (Node [(''models'', Node [(''node--article'', Node
       [(''attributes'', Node [(''title'', Node [(''type'', Leaf (Str ''string''))])]),
        (''relationships'', Node [(''author'', Node
          [(''type'', Leaf (Str ''hasOne'')), (''model'', Leaf (Str ''user:user''))])])])])])"
    by code_simp
  note inst = convertToOrbit_st_deterministic [OF b o c1 c2]
  from inst have "take (length sample_store) (snd first_call) = sample_store"
    by (rule conjunct1)
  moreover from inst have "take (length (snd first_call)) (snd second_call) = snd first_call"
    by (rule conjunct2 [THEN conjunct1])
  moreover from inst
  have "outcome (snd second_call) (fst first_call) = outcome (snd second_call) (fst second_call)"
    by (rule conjunct2 [THEN conjunct2, THEN conjunct1])
  moreover from inst
  have "outcome (snd second_call) (fst second_call) =
      map_sum id schema_tree (convertToOrbit no_parse (Parsed site) filtered)"
    by (rule conjunct2 [THEN conjunct2, THEN conjunct2])
  ultimately show ?thesis
    using b o r1 r2 unfolding pure by (intro conjI)
qed

end
